theory Spec2Isabelle
  imports Complex_Main "HOL-Library.Monad_Syntax"
begin

section \<open>Python values\<close>

text \<open>
  The program is a Python script. Its integers are unbounded (\<open>int\<close>), its strings are
  sequences of code points and its floats are IEEE binary64 numbers.

  A finite float is a rational number, so floats are modelled as \<open>rat\<close>, and every float
  operation is the exact operation followed by rounding to the nearest number with a 53-bit
  significand, ties to even (\<open>rnd64\<close>). The exponent range is not bounded in this model:
  overflow to infinity, underflow and NaN are outside it. The only infinity the program
  writes itself, \<open>float('inf')\<close>, is a constructor of its own (\<open>Infinite\<close>).
\<close>

text \<open>The number of binary digits of a positive integer.\<close>

function bitlen :: "int \<Rightarrow> int" where
  "bitlen n = (if n \<le> 0 then 0 else 1 + bitlen (n div 2))"
  by pat_completeness auto
termination
  by (relation "measure nat") auto

declare bitlen.simps [simp del]

text \<open>Round to the nearest integer, ties to the even one.\<close>

definition rne :: "rat \<Rightarrow> int" where
  "rne x =
     (let f = \<lfloor>x\<rfloor>; r = x - of_int f
      in if r < 1 / 2 then f else if 1 / 2 < r then f + 1 else if even f then f else f + 1)"

text \<open>The binary exponent of a positive rational \<open>a\<close>: \<open>2 powi e \<le> a < 2 powi (e + 1)\<close>.\<close>

definition exponent :: "rat \<Rightarrow> int" where
  "exponent a =
     (let (p, q) = quotient_of a;
          e0 = bitlen p - bitlen q
      in if 2 powi e0 \<le> a then e0 else e0 - 1)"

definition rnd64 :: "rat \<Rightarrow> rat" where
  "rnd64 x =
     (if x = 0 then 0
      else let ulp = 2 powi (exponent \<bar>x\<bar> - 52) in of_int (rne (x / ulp)) * ulp)"

definition fadd :: "rat \<Rightarrow> rat \<Rightarrow> rat" where
  "fadd x y = rnd64 (x + y)"

definition fsub :: "rat \<Rightarrow> rat \<Rightarrow> rat" where
  "fsub x y = rnd64 (x - y)"

definition fmul :: "rat \<Rightarrow> rat \<Rightarrow> rat" where
  "fmul x y = rnd64 (x * y)"

text \<open>
  Float division. Python raises \<open>ZeroDivisionError\<close> on a zero divisor; every call
  below divides by a constant, by a value the script has just tested, or by the days of
  the period, which the date check makes positive (\<open>days_nonzero\<close>). The one divisor
  left, \<open>ahorro_neto_diario\<close>, has a branch of its own in \<open>compute\<close>.
\<close>

definition fdiv :: "rat \<Rightarrow> rat \<Rightarrow> rat" where
  "fdiv x y = rnd64 (x / y)"

text \<open>\<open>float(n)\<close>, the conversion Python applies to an int operand of a float operation.\<close>

definition float_of_int :: "int \<Rightarrow> rat" where
  "float_of_int n = rnd64 (of_int n)"

text \<open>\<open>a / b\<close> on two ints: the correctly rounded quotient.\<close>

definition int_truediv :: "int \<Rightarrow> int \<Rightarrow> rat" where
  "int_truediv a b = rnd64 (of_int a / of_int b)"

text \<open>
  \<open>round(x, 2)\<close>: the exact value of \<open>x\<close> is rounded to two decimals, ties to even,
  and the decimal result is converted back to the nearest float.
\<close>

definition round2 :: "rat \<Rightarrow> rat" where
  "round2 x = rnd64 (of_int (rne (x * 100)) / 100)"

datatype pyfloat = Finite rat | Infinite

section \<open>Parsing durations\<close>

text \<open>
  \<open>parse_time_string\<close> searches the text for the regular expression
  \<^verbatim>\<open>\((\d+)D,\s*(\d+)H,\s*(\d+)M\)\<close> and converts the three groups with \<open>int\<close>.
  Characters are code points below 256; among them \<^verbatim>\<open>\d\<close> matches the ten ASCII digits
  and \<^verbatim>\<open>\s\<close> matches the code points 9 to 13, 28 to 32, 133 and 160. The conversion
  \<open>int\<close> is the mathematical value of the digit string.
\<close>

definition is_digit :: "char \<Rightarrow> bool" where
  "is_digit c = (48 \<le> (of_char c :: nat) \<and> (of_char c :: nat) \<le> 57)"

definition is_space :: "char \<Rightarrow> bool" where
  "is_space c =
     (let n = (of_char c :: nat)
      in (9 \<le> n \<and> n \<le> 13) \<or> (28 \<le> n \<and> n \<le> 32) \<or> n = 133 \<or> n = 160)"

definition digit_val :: "char \<Rightarrow> int" where
  "digit_val c = int (of_char c) - 48"

definition int_of_str :: "string \<Rightarrow> int" where
  "int_of_str ds = foldl (\<lambda>n c. 10 * n + digit_val c) 0 ds"

text \<open>A literal piece of the pattern: the rest of the text after it, if it is there.\<close>

definition lit :: "string \<Rightarrow> string \<Rightarrow> string option" where
  "lit p s = (if take (length p) s = p then Some (drop (length p) s) else None)"

text \<open>\<^verbatim>\<open>(\d+)\<close>: the longest run of digits, which must not be empty, and the rest.\<close>

definition digits1 :: "string \<Rightarrow> (string \<times> string) option" where
  "digits1 s =
     (let ds = takeWhile is_digit s
      in if ds = [] then None else Some (ds, dropWhile is_digit s))"

text \<open>
  A match of the whole pattern at the start of the text. Each repetition is followed by a
  character outside its class, so the longest run is the only one that can match.
\<close>

definition match_here :: "string \<Rightarrow> (string \<times> string \<times> string) option" where
  "match_here s = do {
     r1 \<leftarrow> lit ''('' s;
     (d, r2) \<leftarrow> digits1 r1;
     r3 \<leftarrow> lit ''D,'' r2;
     (h, r4) \<leftarrow> digits1 (dropWhile is_space r3);
     r5 \<leftarrow> lit ''H,'' r4;
     (m, r6) \<leftarrow> digits1 (dropWhile is_space r5);
     r7 \<leftarrow> lit ''M)'' r6;
     Some (d, h, m)
   }"

text \<open>\<open>re.search\<close>: the match at the leftmost position that has one.\<close>

fun re_search :: "string \<Rightarrow> (string \<times> string \<times> string) option" where
  "re_search [] = match_here []"
| "re_search (c # cs) =
     (case match_here (c # cs) of Some g \<Rightarrow> Some g | None \<Rightarrow> re_search cs)"

definition parse_time_string :: "string \<Rightarrow> int option" where
  "parse_time_string time_str =
     (case re_search time_str of
        Some (d, h, m) \<Rightarrow>
          (let days = int_of_str d; hours = int_of_str h; minutes = int_of_str m
           in Some (days * 24 * 60 + hours * 60 + minutes))
      | None \<Rightarrow> None)"

text \<open>
  The pattern in the words of the specification: an opening parenthesis, digits and
  \<open>D\<close>, a comma, optional whitespace, digits and \<open>H\<close>, a comma, optional whitespace,
  digits and \<open>M\<close>, a closing parenthesis. It is what the parser is compared with.
\<close>

definition digits :: "string \<Rightarrow> bool" where
  "digits s = (s \<noteq> [] \<and> list_all is_digit s)"

definition spaces :: "string \<Rightarrow> bool" where
  "spaces s = list_all is_space s"

definition duration_text :: "string \<Rightarrow> string \<Rightarrow> string \<Rightarrow> string \<Rightarrow> string \<Rightarrow> string" where
  "duration_text ds w1 hs w2 ms = ''('' @ ds @ ''D,'' @ w1 @ hs @ ''H,'' @ w2 @ ms @ ''M)''"

section \<open>The calculation\<close>

text \<open>
  The values read from the page before the button \<open>Calcular\<close> is handled. The two dates
  are day numbers. \<open>num_unidades\<close> and the two percentages come from integer widgets,
  the other numbers from float widgets.
\<close>

record inputs =
  idle_time :: string
  moving_time :: string
  combustible_total :: rat
  precio_litro :: rat
  num_unidades :: int
  costo_por_pieza :: rat
  renta_mensual :: rat
  porcentaje_reduccion :: int
  porcentaje_ralenti_real :: int
  start_date :: int
  end_date :: int

text \<open>The messages the script can stop with, and the one exception it does not guard.\<close>

datatype error =
    StartAfterEnd
  | IdleFormat
  | MovingFormat
  | FuelNotPositive
  | PriceNotPositive
  | TotalTimeZero
  | ZeroDivisionError

text \<open>What a successful calculation stores in the session state.\<close>

record results =
  idle_minutes :: int
  moving_minutes :: int
  total_minutes :: int
  idle_percentage :: rat
  moving_percentage :: rat
  combustible_ralenti :: rat
  combustible_movimiento :: rat
  costo_ralenti :: rat
  costo_movimiento :: rat
  costo_total :: rat
  merma_total :: rat
  merma_diaria :: rat
  merma_semanal :: rat
  merma_mensual :: rat
  merma_anual :: rat
  merma_total_unit :: rat
  merma_diaria_unit :: rat
  merma_semanal_unit :: rat
  merma_mensual_unit :: rat
  merma_anual_unit :: rat
  ahorro_anual :: rat
  costo_total_barras :: rat
  ahorro_mensual :: rat
  neto_mensual :: rat
  neto_anual :: rat
  meses_para_recuperar :: pyfloat
  roi_days :: pyfloat
  costo_ralenti_real_unit :: rat
  merma_diaria_real_unit :: rat
  merma_semanal_real_unit :: rat
  merma_mensual_real_unit :: rat
  merma_anual_real_unit :: rat
  costo_ralenti_real_fleet :: rat
  merma_diaria_real_fleet :: rat
  merma_semanal_real_fleet :: rat
  merma_mensual_real_fleet :: rat
  merma_anual_real_fleet :: rat

text \<open>
  The arithmetic of the \<open>else\<close> branch that follows all the checks, for parsed minutes
  with a non-zero total and a period of \<open>duration_days\<close> days. The only division whose
  divisor the script does not test is the one by \<open>ahorro_neto_diario\<close>.
\<close>

definition compute :: "inputs \<Rightarrow> int \<Rightarrow> int \<Rightarrow> int \<Rightarrow> error + results" where
  "compute inp duration_days idle_min moving_min =
     (let total_min = idle_min + moving_min;
          idle_pct = fmul (int_truediv idle_min total_min) 100;
          moving_pct = fmul (int_truediv moving_min total_min) 100;
          comb_ralenti = fmul (fdiv idle_pct 100) (combustible_total inp);
          comb_movimiento = fmul (fdiv moving_pct 100) (combustible_total inp);
          c_ralenti = fmul comb_ralenti (precio_litro inp);
          c_movimiento = fmul comb_movimiento (precio_litro inp);
          c_total = fmul (combustible_total inp) (precio_litro inp);
          units = float_of_int (num_unidades inp);
          days = float_of_int duration_days;
          m_total = fmul c_ralenti units;
          m_diaria = fdiv m_total days;
          m_semanal = fmul m_diaria 7;
          m_mensual = fmul m_diaria 30;
          m_anual = fmul m_diaria 365;
          m_total_unit = c_ralenti;
          m_diaria_unit = fdiv m_total_unit days;
          m_semanal_unit = fmul m_diaria_unit 7;
          m_mensual_unit = fmul m_diaria_unit 30;
          m_anual_unit = fmul m_diaria_unit 365;
          a_anual = fmul (fmul m_anual (int_truediv (porcentaje_reduccion inp) 100))
                         (int_truediv (porcentaje_ralenti_real inp) 100);
          c_total_barras = fmul (costo_por_pieza inp) units;
          a_mensual = fdiv a_anual 12;
          n_mensual = fsub a_mensual (fmul (renta_mensual inp) units);
          meses = (if 0 < n_mensual then Finite (fdiv c_total_barras n_mensual) else Infinite);
          ahorro_neto_diario = fdiv n_mensual 30;
          n_anual = fsub a_anual (fmul (fmul (renta_mensual inp) 12) units);
          c_real_unit = fmul c_ralenti (int_truediv (porcentaje_ralenti_real inp) 100);
          m_diaria_real_unit = fdiv c_real_unit days;
          c_real_fleet = fmul c_real_unit units;
          m_diaria_real_fleet = fdiv c_real_fleet days
      in if 0 < n_mensual \<and> ahorro_neto_diario = 0 then Inl ZeroDivisionError
         else Inr \<lparr>
           idle_minutes = idle_min,
           moving_minutes = moving_min,
           total_minutes = total_min,
           idle_percentage = idle_pct,
           moving_percentage = moving_pct,
           combustible_ralenti = comb_ralenti,
           combustible_movimiento = comb_movimiento,
           costo_ralenti = c_ralenti,
           costo_movimiento = c_movimiento,
           costo_total = c_total,
           merma_total = m_total,
           merma_diaria = m_diaria,
           merma_semanal = m_semanal,
           merma_mensual = m_mensual,
           merma_anual = m_anual,
           merma_total_unit = m_total_unit,
           merma_diaria_unit = m_diaria_unit,
           merma_semanal_unit = m_semanal_unit,
           merma_mensual_unit = m_mensual_unit,
           merma_anual_unit = m_anual_unit,
           ahorro_anual = a_anual,
           costo_total_barras = c_total_barras,
           ahorro_mensual = a_mensual,
           neto_mensual = n_mensual,
           neto_anual = n_anual,
           meses_para_recuperar = meses,
           roi_days =
             (if 0 < n_mensual then Finite (fdiv c_total_barras ahorro_neto_diario)
              else Infinite),
           costo_ralenti_real_unit = c_real_unit,
           merma_diaria_real_unit = m_diaria_real_unit,
           merma_semanal_real_unit = fmul m_diaria_real_unit 7,
           merma_mensual_real_unit = fmul m_diaria_real_unit 30,
           merma_anual_real_unit = fmul m_diaria_real_unit 365,
           costo_ralenti_real_fleet = c_real_fleet,
           merma_diaria_real_fleet = m_diaria_real_fleet,
           merma_semanal_real_fleet = fmul m_diaria_real_fleet 7,
           merma_mensual_real_fleet = fmul m_diaria_real_fleet 30,
           merma_anual_real_fleet = fmul m_diaria_real_fleet 365
         \<rparr>)"

text \<open>
  The script from the date check to the end of the calculation: the date check stops the
  script, then the \<open>if\<close>/\<open>elif\<close> chain of the button reports the first failing
  check, and only its last \<open>else\<close> adds the minutes and tests the total.
\<close>

definition calcular :: "inputs \<Rightarrow> error + results" where
  "calcular inp =
     (if end_date inp < start_date inp then Inl StartAfterEnd
      else let duration_days = end_date inp - start_date inp + 1;
               idle_min = parse_time_string (idle_time inp);
               moving_min = parse_time_string (moving_time inp)
           in if idle_min = None then Inl IdleFormat
              else if moving_min = None then Inl MovingFormat
              else if combustible_total inp \<le> 0 then Inl FuelNotPositive
              else if precio_litro inp \<le> 0 then Inl PriceNotPositive
              else if the idle_min + the moving_min = 0 then Inl TotalTimeZero
              else compute inp duration_days (the idle_min) (the moving_min))"

section \<open>The evolution of savings and cost\<close>

record evolucion =
  mes :: int
  ahorro_acumulado :: rat
  costo_acumulado :: rat
  ganancia_acumulada :: rat

text \<open>
  The body of the loop over the months: the running sum \<open>acc\<close> is \<open>ahorro_acumulado\<close>
  before the month. \<open>ganancia_exacta\<close> is the gain of a month before it is rounded for
  the table.
\<close>

definition ahorro_tras :: "rat \<Rightarrow> rat \<Rightarrow> rat" where
  "ahorro_tras acc ahorro_m = fadd acc ahorro_m"

definition costo_en :: "rat \<Rightarrow> rat \<Rightarrow> int \<Rightarrow> rat" where
  "costo_en costo_inicial costo_mensual m =
     fadd costo_inicial (fmul costo_mensual (float_of_int m))"

fun evolucion_loop :: "rat \<Rightarrow> rat \<Rightarrow> rat \<Rightarrow> rat \<Rightarrow> int list \<Rightarrow> evolucion list" where
  "evolucion_loop costo_inicial costo_mensual ahorro_m acc [] = []"
| "evolucion_loop costo_inicial costo_mensual ahorro_m acc (m # ms) =
     (let acc' = ahorro_tras acc ahorro_m;
          costo = costo_en costo_inicial costo_mensual m;
          ganancia = fsub acc' costo
      in \<lparr> mes = m,
           ahorro_acumulado = round2 acc',
           costo_acumulado = round2 costo,
           ganancia_acumulada = round2 ganancia \<rparr>
         # evolucion_loop costo_inicial costo_mensual ahorro_m acc' ms)"

definition meses :: int where
  "meses = 60"

definition data_evolucion :: "rat \<Rightarrow> rat \<Rightarrow> rat \<Rightarrow> evolucion list" where
  "data_evolucion costo_inicial costo_mensual ahorro_m =
     evolucion_loop costo_inicial costo_mensual ahorro_m 0 [1..meses]"

text \<open>
  The month of the return: the least \<open>Mes\<close> among the rows whose rounded gain is not
  negative; the minimum of no rows is NaN, which the script reads as no such month.
\<close>

definition roi_mes :: "evolucion list \<Rightarrow> int option" where
  "roi_mes df =
     (case filter (\<lambda>r. 0 \<le> ganancia_acumulada r) df of
        [] \<Rightarrow> None
      | r # rs \<Rightarrow> Some (fold min (map mes rs) (mes r)))"

text \<open>The simulation as the script runs it after a calculation.\<close>

definition simular :: "inputs \<Rightarrow> results \<Rightarrow> evolucion list" where
  "simular inp res =
     data_evolucion (costo_total_barras res)
       (fmul (renta_mensual inp) (float_of_int (num_unidades inp)))
       (ahorro_mensual res)"

text \<open>
  The variables of the loop in month \<open>k\<close>, in closed form: the running sum of the
  savings after \<open>k\<close> additions, the gain before it is rounded for the table, and the row
  the loop appends.
\<close>

fun ahorro_hasta :: "rat \<Rightarrow> nat \<Rightarrow> rat" where
  "ahorro_hasta ahorro_m 0 = 0"
| "ahorro_hasta ahorro_m (Suc k) = ahorro_tras (ahorro_hasta ahorro_m k) ahorro_m"

definition ganancia_en :: "rat \<Rightarrow> rat \<Rightarrow> rat \<Rightarrow> nat \<Rightarrow> rat" where
  "ganancia_en costo_inicial costo_mensual ahorro_m k =
     fsub (ahorro_hasta ahorro_m k) (costo_en costo_inicial costo_mensual (int k))"

definition fila :: "rat \<Rightarrow> rat \<Rightarrow> rat \<Rightarrow> nat \<Rightarrow> evolucion" where
  "fila costo_inicial costo_mensual ahorro_m k =
     \<lparr> mes = int k,
       ahorro_acumulado = round2 (ahorro_hasta ahorro_m k),
       costo_acumulado = round2 (costo_en costo_inicial costo_mensual (int k)),
       ganancia_acumulada = round2 (ganancia_en costo_inicial costo_mensual ahorro_m k) \<rparr>"

section \<open>Inputs used below\<close>

text \<open>The values the widgets start with, for the two durations of the placeholders.\<close>

definition por_defecto :: inputs where
  "por_defecto =
     \<lparr> idle_time = ''(1D, 22H, 8M)'', moving_time = ''(1D, 15H, 32M)'',
       combustible_total = 1419, precio_litro = 25, num_unidades = 30,
       costo_por_pieza = 0, renta_mensual = 999,
       porcentaje_reduccion = 20, porcentaje_ralenti_real = 100,
       start_date = 1, end_date = 1 \<rparr>"

text \<open>Idle for one minute of three; the fuel and the rest as the widgets start.\<close>

definition tercios :: inputs where
  "tercios = por_defecto \<lparr> idle_time := ''(0D,0H,1M)'', moving_time := ''(0D,0H,2M)'' \<rparr>"



text \<open>The scenario of the specification; 1419 litres at 25 are what the widgets start with.\<close>

definition escenario :: inputs where
  "escenario = por_defecto \<lparr> idle_time := ''(1D,22H,8M)'', moving_time := ''(1D,15H,32M)'' \<rparr>"

text \<open>A purchase cost of 1000 per unit and a period of seven days.\<close>

definition recuperable :: inputs where
  "recuperable = por_defecto \<lparr> costo_por_pieza := 1000, end_date := 7 \<rparr>"

text \<open>No reduction of the idle time at all.\<close>

definition sin_reduccion :: inputs where
  "sin_reduccion = por_defecto \<lparr> porcentaje_reduccion := 0 \<rparr>"

text \<open>
  One unit, always idle, twelve litres at one peso in one day and a full reduction: the
  monthly savings are 365; the purchase cost is 365 and 1/256.
\<close>

definition medio_centavo :: inputs where
  "medio_centavo = por_defecto \<lparr> idle_time := ''(0D,0H,1M)'', moving_time := ''(0D,0H,0M)'', combustible_total := 12, precio_litro := 1, num_unidades := 1, costo_por_pieza := 93441 / 256, renta_mensual := 0, porcentaje_reduccion := 100 \<rparr>"

section \<open>Rounding error\<close>

text \<open>
  The unit roundoff of binary64, the relative error \<open>k\<close> roundings can add up to, and
  what it means for a computed \<open>X\<close> to be within \<open>k\<close> roundings of an exact \<open>x\<close>.
\<close>

definition u64 :: rat where
  "u64 = 1 / 2 ^ 53"

definition relerr :: "nat \<Rightarrow> rat" where
  "relerr k = (1 + u64) ^ k - 1"

definition approx :: "nat \<Rightarrow> rat \<Rightarrow> rat \<Rightarrow> bool" where
  "approx k X x = (\<bar>X - x\<bar> \<le> relerr k * \<bar>x\<bar>)"

section \<open>Properties of the rounding\<close>


lemma bitlen_nonneg: "0 \<le> bitlen n"
  by (induction n rule: bitlen.induct) (subst bitlen.simps, simp)

lemma bitlen_pos: "0 < n \<Longrightarrow> 1 \<le> bitlen n"
  using bitlen_nonneg [of "n div 2"] by (subst bitlen.simps) simp

lemma bitlen_bounds:
  "0 < n \<Longrightarrow> 2 ^ nat (bitlen n - 1) \<le> n \<and> n < 2 ^ nat (bitlen n)"
proof (induction n rule: bitlen.induct)
  case (1 n)
  show ?case
  proof (cases "n = 1")
    case True
    have "bitlen 1 = 1"
      by (simp add: bitlen.simps [of 1] bitlen.simps [of 0])
    with True show ?thesis by simp
  next
    case False
    with "1.prems" have h: "0 < n div 2" by simp
    from "1.prems" have n: "\<not> n \<le> 0" by simp
    from "1.IH" [OF n h]
    have lo: "2 ^ nat (bitlen (n div 2) - 1) \<le> n div 2"
      and hi: "n div 2 < 2 ^ nat (bitlen (n div 2))" by simp_all
    have b: "bitlen n = 1 + bitlen (n div 2)"
      using n by (simp add: bitlen.simps [of n])
    have p: "1 \<le> bitlen (n div 2)" using h by (rule bitlen_pos)
    have e1: "nat (bitlen n - 1) = Suc (nat (bitlen (n div 2) - 1))"
      using b p by simp
    have e2: "nat (bitlen n) = Suc (nat (bitlen (n div 2)))"
      using b p by simp
    have "2 * 2 ^ nat (bitlen (n div 2) - 1) \<le> 2 * (n div 2)" using lo by simp
    also have "\<dots> \<le> n" by simp
    finally have A: "2 ^ nat (bitlen n - 1) \<le> n" by (simp add: e1)
    have "n div 2 + 1 \<le> 2 ^ nat (bitlen (n div 2))" using hi by simp
    then have "2 * (n div 2) + 2 \<le> 2 * 2 ^ nat (bitlen (n div 2))" by simp
    moreover have "n < 2 * (n div 2) + 2" by presburger
    ultimately have B: "n < 2 ^ nat (bitlen n)" by (simp add: e2)
    from A B show ?thesis ..
  qed
qed

lemma powi_two_pos [simp]: "0 < (2::rat) powi k"
  by simp

lemma powi_two_add: "(2::rat) powi (a + b) = 2 powi a * 2 powi b"
  by (simp add: power_int_add)

lemma powi_two_diff: "(2::rat) powi (a - b) = 2 powi a / 2 powi b"
  by (simp add: power_int_diff)

lemma powi_two_mono: "a \<le> b \<Longrightarrow> (2::rat) powi a \<le> 2 powi b"
  by (rule power_int_increasing) simp_all

lemma powi_two_strict_mono: "a < b \<Longrightarrow> (2::rat) powi a < 2 powi b"
  by (rule power_int_strict_increasing) simp_all

lemma powi_two_less_iff: "(2::rat) powi a < 2 powi b \<longleftrightarrow> a < b"
  using powi_two_strict_mono [of a b] powi_two_mono [of b a] by (auto simp: not_less [symmetric])

lemma powi_two_le_iff: "(2::rat) powi a \<le> 2 powi b \<longleftrightarrow> a \<le> b"
  using powi_two_strict_mono [of b a] powi_two_mono [of a b] by (auto simp: not_le [symmetric])

lemma exponent_bounds:
  assumes "0 < a"
  shows "2 powi exponent a \<le> a \<and> a < 2 powi (exponent a + 1)"
proof -
  obtain p q where pq: "quotient_of a = (p, q)" by (cases "quotient_of a")
  then have q: "0 < q" by (rule quotient_of_denom_pos)
  have a: "a = of_int p / of_int q" using pq by (rule quotient_of_div)
  with assms q have p: "0 < p" by (simp add: zero_less_divide_iff)
  define bp where "bp = bitlen p"
  define bq where "bq = bitlen q"
  have bp1: "1 \<le> bp" and bq1: "1 \<le> bq"
    using p q by (simp_all add: bp_def bq_def bitlen_pos)
  have "(2::int) ^ nat (bp - 1) \<le> p" "p < 2 ^ nat bp"
    using bitlen_bounds [OF p] by (simp_all add: bp_def)
  then have "(of_int ((2::int) ^ nat (bp - 1)) :: rat) \<le> of_int p"
    "(of_int p :: rat) < of_int (2 ^ nat bp)"
    by (simp_all only: of_int_le_iff of_int_less_iff)
  then have P: "(2::rat) powi (bp - 1) \<le> of_int p" "(of_int p :: rat) < 2 powi bp"
    using bp1 by (simp_all add: power_int_def)
  have "(2::int) ^ nat (bq - 1) \<le> q" "q < 2 ^ nat bq"
    using bitlen_bounds [OF q] by (simp_all add: bq_def)
  then have "(of_int ((2::int) ^ nat (bq - 1)) :: rat) \<le> of_int q"
    "(of_int q :: rat) < of_int (2 ^ nat bq)"
    by (simp_all only: of_int_le_iff of_int_less_iff)
  then have Q: "(2::rat) powi (bq - 1) \<le> of_int q" "(of_int q :: rat) < 2 powi bq"
    using bq1 by (simp_all add: power_int_def)
  have qpos: "(0::rat) < of_int q" using q by simp
  have ppos: "(0::rat) < of_int p" using p by simp
  have up: "a < 2 powi (bp - bq + 1)"
  proof -
    have "of_int p < (2::rat) powi bp" by (rule P)
    also have "\<dots> = 2 powi (bp - bq + 1) * 2 powi (bq - 1)"
      by (simp add: powi_two_add [symmetric])
    also have "\<dots> \<le> 2 powi (bp - bq + 1) * of_int q"
      using Q(1) by (simp add: mult_left_mono)
    finally show ?thesis using qpos by (simp add: a pos_divide_less_eq)
  qed
  have lo: "2 powi (bp - bq - 1) \<le> a"
  proof -
    have "2 powi (bp - bq - 1) * of_int q \<le> (2::rat) powi (bp - bq - 1) * 2 powi bq"
      using Q(2) by (simp add: mult_left_mono)
    also have "\<dots> = 2 powi (bp - 1)"
      by (simp add: powi_two_add [symmetric])
    also have "\<dots> \<le> of_int p" by (rule P)
    finally show ?thesis using qpos by (simp add: a pos_le_divide_eq)
  qed
  have e: "exponent a = (if 2 powi (bp - bq) \<le> a then bp - bq else bp - bq - 1)"
    by (simp add: exponent_def pq bp_def bq_def Let_def)
  show ?thesis
  proof (cases "2 powi (bp - bq) \<le> a")
    case True
    with e up show ?thesis by simp
  next
    case False
    with e lo show ?thesis by simp
  qed
qed

lemma exponent_unique:
  assumes "2 powi k \<le> a" "a < 2 powi (k + 1)"
  shows "exponent a = k"
proof -
  have "0 < (2::rat) powi k" by simp
  with assms have a: "0 < a" by linarith
  note b = exponent_bounds [OF a]
  have "2 powi exponent a < (2::rat) powi (k + 1)" using b assms by linarith
  then have 1: "exponent a < k + 1" by (simp add: powi_two_less_iff)
  have "2 powi k < (2::rat) powi (exponent a + 1)" using b assms by linarith
  then have 2: "k < exponent a + 1" by (simp add: powi_two_less_iff)
  from 1 2 show ?thesis by simp
qed


lemma rne_err: "\<bar>of_int (rne x) - x\<bar> \<le> 1 / 2"
proof -
  have "of_int \<lfloor>x\<rfloor> \<le> x" "x < of_int \<lfloor>x\<rfloor> + 1" by linarith+
  then show ?thesis by (auto simp: rne_def Let_def)
qed

lemma rne_of_int [simp]: "rne (of_int n) = n"
  by (simp add: rne_def)

lemma rne_mono:
  assumes "x \<le> y"
  shows "rne x \<le> rne y"
proof -
  have fx: "of_int \<lfloor>x\<rfloor> \<le> x" "x < of_int \<lfloor>x\<rfloor> + 1" by linarith+
  have fy: "of_int \<lfloor>y\<rfloor> \<le> y" "y < of_int \<lfloor>y\<rfloor> + 1" by linarith+
  have le: "\<lfloor>x\<rfloor> \<le> \<lfloor>y\<rfloor>" using assms by (rule floor_mono)
  have a: "\<lfloor>x\<rfloor> \<le> rne x" "rne x \<le> \<lfloor>x\<rfloor> + 1" by (auto simp: rne_def Let_def)
  have b: "\<lfloor>y\<rfloor> \<le> rne y" "rne y \<le> \<lfloor>y\<rfloor> + 1" by (auto simp: rne_def Let_def)
  show ?thesis
  proof (cases "\<lfloor>x\<rfloor> = \<lfloor>y\<rfloor>")
    case True
    then have "x - of_int \<lfloor>x\<rfloor> \<le> y - of_int \<lfloor>y\<rfloor>" using assms by simp
    then show ?thesis using True by (auto simp: rne_def Let_def)
  next
    case False
    with le have "\<lfloor>x\<rfloor> + 1 \<le> \<lfloor>y\<rfloor>" by simp
    with a b show ?thesis by linarith
  qed
qed

lemma rne_minus: "rne (- x) = - rne x"
proof (cases "x = of_int \<lfloor>x\<rfloor>")
  case True
  then have "rne x = \<lfloor>x\<rfloor>" "- x = of_int (- \<lfloor>x\<rfloor>)"
    by (metis rne_of_int, simp)
  then show ?thesis by (metis rne_of_int)
next
  case False
  have fx: "of_int \<lfloor>x\<rfloor> \<le> x" "x < of_int \<lfloor>x\<rfloor> + 1" by linarith+
  from False have ne: "of_int \<lfloor>x\<rfloor> \<noteq> x" by (rule not_sym)
  from ne fx(1) have lt: "of_int \<lfloor>x\<rfloor> < x" by (rule order_neq_le_trans)
  have f: "\<lfloor>- x\<rfloor> = - \<lfloor>x\<rfloor> - 1"
    using lt fx by (intro floor_unique) simp_all
  have r: "- x - of_int \<lfloor>- x\<rfloor> = 1 - (x - of_int \<lfloor>x\<rfloor>)"
    by (simp add: f)
  show ?thesis
    unfolding rne_def Let_def r unfolding f by auto
qed

lemma rne_ge: "of_int n \<le> x \<Longrightarrow> n \<le> rne x"
  using rne_mono [of "of_int n" x] by simp

lemma rne_le: "x \<le> of_int n \<Longrightarrow> rne x \<le> n"
  using rne_mono [of x "of_int n"] by simp

lemma rnd64_zero [simp]: "rnd64 0 = 0"
  by (simp add: rnd64_def)

lemma rnd64_eq:
  assumes "2 powi k \<le> \<bar>x\<bar>" "\<bar>x\<bar> < 2 powi (k + 1)"
  shows "rnd64 x = of_int (rne (x / 2 powi (k - 52))) * 2 powi (k - 52)"
proof -
  have "0 < (2::rat) powi k" by simp
  with assms(1) have "0 < \<bar>x\<bar>" by linarith
  then have "x \<noteq> 0" by simp
  moreover have "exponent \<bar>x\<bar> = k" using assms by (rule exponent_unique)
  ultimately show ?thesis by (simp add: rnd64_def Let_def)
qed

lemma rnd64_minus: "rnd64 (- x) = - rnd64 x"
  by (simp add: rnd64_def Let_def rne_minus)

lemma rnd64_range:
  assumes "0 < x"
  shows "2 powi exponent x \<le> rnd64 x \<and> rnd64 x \<le> 2 powi (exponent x + 1)"
proof -
  define e where "e = exponent x"
  define ulp :: rat where "ulp = 2 powi (e - 52)"
  have ulp: "0 < ulp" by (simp add: ulp_def)
  have b: "2 powi e \<le> x" "x < 2 powi (e + 1)"
    using exponent_bounds [OF assms] by (simp_all add: e_def)
  have r: "rnd64 x = of_int (rne (x / ulp)) * ulp"
    using assms by (simp add: rnd64_def Let_def e_def ulp_def)
  have lo: "2 powi e = of_int (2 ^ 52) * ulp"
    by (simp add: ulp_def powi_two_diff)
  have hi: "2 powi (e + 1) = of_int (2 ^ 53) * ulp"
    by (simp add: ulp_def powi_two_diff powi_two_add)
  have "of_int (2 ^ 52) \<le> x / ulp"
    using b(1) ulp unfolding lo by (simp add: pos_le_divide_eq)
  then have "2 ^ 52 \<le> rne (x / ulp)" by (rule rne_ge)
  then have "(of_int (2 ^ 52) :: rat) \<le> of_int (rne (x / ulp))"
    by (simp only: of_int_le_iff)
  then have A: "2 powi e \<le> rnd64 x"
    unfolding lo r using ulp by (simp only: mult_le_cancel_right_pos)
  have "x / ulp \<le> of_int (2 ^ 53)"
    using b(2) ulp unfolding hi by (simp add: pos_divide_le_eq)
  then have "rne (x / ulp) \<le> 2 ^ 53" by (rule rne_le)
  then have "(of_int (rne (x / ulp)) :: rat) \<le> of_int (2 ^ 53)"
    by (simp only: of_int_le_iff)
  then have B: "rnd64 x \<le> 2 powi (e + 1)"
    unfolding hi r using ulp by (simp only: mult_le_cancel_right_pos)
  from A B show ?thesis by (simp add: e_def)
qed

lemma rnd64_pos: "0 < x \<Longrightarrow> 0 < rnd64 x"
  using rnd64_range [of x] powi_two_pos [of "exponent x"] by linarith

lemma rnd64_nonneg: "0 \<le> x \<Longrightarrow> 0 \<le> rnd64 x"
  using rnd64_pos [of x] by (cases "x = 0") (simp_all add: less_le)

lemma rnd64_neg: "x < 0 \<Longrightarrow> rnd64 x < 0"
  using rnd64_pos [of "- x"] by (simp add: rnd64_minus)

lemma rnd64_eq_0_iff [simp]: "rnd64 x = 0 \<longleftrightarrow> x = 0"
  using rnd64_pos [of x] rnd64_neg [of x] by (cases x "0::rat" rule: linorder_cases) auto

lemma exponent_mono:
  assumes "0 < x" "x \<le> y"
  shows "exponent x \<le> exponent y"
proof -
  have y: "0 < y" using assms by simp
  have "2 powi exponent x \<le> x" using exponent_bounds [OF assms(1)] by simp
  also have "\<dots> \<le> y" by fact
  also have "\<dots> < 2 powi (exponent y + 1)" using exponent_bounds [OF y] by simp
  finally show ?thesis by (simp add: powi_two_less_iff)
qed

lemma rnd64_mono_pos:
  assumes "0 < x" "x \<le> y"
  shows "rnd64 x \<le> rnd64 y"
proof (cases "exponent x = exponent y")
  case True
  have y: "0 < y" using assms by simp
  have "x / 2 powi (exponent y - 52) \<le> y / 2 powi (exponent y - 52)"
    using assms(2) by (simp add: divide_right_mono)
  then have "rne (x / 2 powi (exponent y - 52)) \<le> rne (y / 2 powi (exponent y - 52))"
    by (rule rne_mono)
  then have "(of_int (rne (x / 2 powi (exponent y - 52))) :: rat)
      \<le> of_int (rne (y / 2 powi (exponent y - 52)))"
    by (simp only: of_int_le_iff)
  then show ?thesis
    using assms(1) y True by (simp add: rnd64_def Let_def mult_right_mono)
next
  case False
  have y: "0 < y" using assms by simp
  from False exponent_mono [OF assms] have "exponent x + 1 \<le> exponent y" by simp
  then have "(2::rat) powi (exponent x + 1) \<le> 2 powi exponent y" by (rule powi_two_mono)
  with rnd64_range [OF assms(1)] rnd64_range [OF y] show ?thesis by linarith
qed

lemma rnd64_mono:
  assumes "x \<le> y"
  shows "rnd64 x \<le> rnd64 y"
proof -
  consider "0 < x" | "x \<le> 0" "0 \<le> y" | "y < 0" using assms by linarith
  then show ?thesis
  proof cases
    case 1
    then show ?thesis using assms by (rule rnd64_mono_pos)
  next
    case 2
    have "rnd64 x \<le> 0" using 2(1) rnd64_nonneg [of "- x"] by (simp add: rnd64_minus)
    moreover have "0 \<le> rnd64 y" using 2(2) by (rule rnd64_nonneg)
    ultimately show ?thesis by simp
  next
    case 3
    then have "0 < - y" "- y \<le> - x" using assms by simp_all
    then have "rnd64 (- y) \<le> rnd64 (- x)" by (rule rnd64_mono_pos)
    then show ?thesis by (simp add: rnd64_minus)
  qed
qed

lemma rnd64_err: "\<bar>rnd64 x - x\<bar> \<le> \<bar>x\<bar> / 2 ^ 53"
proof (cases "x = 0")
  case True
  then show ?thesis by simp
next
  case False
  define e where "e = exponent \<bar>x\<bar>"
  define ulp :: rat where "ulp = 2 powi (e - 52)"
  have ulp: "0 < ulp" by (simp add: ulp_def)
  have ax: "0 < \<bar>x\<bar>" using False by simp
  have b: "2 powi e \<le> \<bar>x\<bar>"
    using exponent_bounds [OF ax] by (simp add: e_def)
  have r: "rnd64 x = of_int (rne (x / ulp)) * ulp"
    using False by (simp add: rnd64_def Let_def e_def ulp_def)
  have "rnd64 x - x = (of_int (rne (x / ulp)) - x / ulp) * ulp"
    using ulp by (simp add: r algebra_simps)
  then have "\<bar>rnd64 x - x\<bar> = \<bar>of_int (rne (x / ulp)) - x / ulp\<bar> * ulp"
    using ulp by (simp add: abs_mult)
  also have "\<dots> \<le> 1 / 2 * ulp"
    using rne_err [of "x / ulp"] ulp by (simp only: mult_le_cancel_right_pos)
  also have "\<dots> = 2 powi e / 2 ^ 53"
    by (simp add: ulp_def powi_two_diff)
  also have "\<dots> \<le> \<bar>x\<bar> / 2 ^ 53"
    using b by (simp add: divide_right_mono)
  finally show ?thesis .
qed

lemma rnd64_exact:
  assumes "x = of_int m * 2 powi k" "\<bar>m\<bar> < 2 ^ 53"
  shows "rnd64 x = x"
proof (cases "x = 0")
  case True
  then show ?thesis by simp
next
  case False
  define e where "e = exponent \<bar>x\<bar>"
  have ax: "0 < \<bar>x\<bar>" using False by simp
  have b: "2 powi e \<le> \<bar>x\<bar>"
    using exponent_bounds [OF ax] by (simp add: e_def)
  have "\<bar>x\<bar> = of_int \<bar>m\<bar> * 2 powi k"
    by (simp add: assms(1) abs_mult)
  also have "\<dots> < of_int (2 ^ 53) * 2 powi k"
    using assms(2) by (simp only: of_int_less_iff mult_less_cancel_right_pos powi_two_pos)
  also have "\<dots> = 2 powi (k + 53)"
    by (simp add: powi_two_add)
  finally have "(2::rat) powi e < 2 powi (k + 53)" using b by linarith
  then have ek: "e - 52 \<le> k" by (simp add: powi_two_less_iff)
  define j where "j = nat (k - (e - 52))"
  have k: "k = (e - 52) + int j" using ek by (simp add: j_def)
  have "x / 2 powi (e - 52) = of_int m * 2 powi int j"
    by (simp add: assms(1) k powi_two_add)
  also have "\<dots> = of_int (m * 2 ^ j)" by simp
  finally have "rne (x / 2 powi (e - 52)) = m * 2 ^ j" by (simp only: rne_of_int)
  then have "rnd64 x = of_int (m * 2 ^ j) * 2 powi (e - 52)"
    using False by (simp add: rnd64_def Let_def e_def)
  also have "\<dots> = of_int m * (2 powi int j * 2 powi (e - 52))" by simp
  also have "\<dots> = x" by (simp add: assms(1) k powi_two_add [symmetric] add.commute del: power_int_of_nat)
  finally show ?thesis .
qed

section \<open>Properties of the parser\<close>


lemma not_digit_letters [simp]:
  "\<not> is_digit CHR ''D''" "\<not> is_digit CHR ''H''" "\<not> is_digit CHR ''M''"
  by (simp_all add: is_digit_def)


lemma lit_Some: "lit p s = Some r \<longleftrightarrow> s = p @ r"
  by (auto simp: lit_def split: if_splits) (metis append_take_drop_id)


lemma digits1_Some:
  assumes "digits1 s = Some (ds, r)"
  shows "s = ds @ r \<and> digits ds"
proof -
  from assms have "ds = takeWhile is_digit s" "r = dropWhile is_digit s" "ds \<noteq> []"
    by (auto simp: digits1_def Let_def split: if_splits)
  then show ?thesis
    by (auto simp: digits_def list_all_iff dest: set_takeWhileD)
qed


lemma drop_spaces_split: "\<exists>w. s = w @ dropWhile is_space s \<and> spaces w"
proof
  show "s = takeWhile is_space s @ dropWhile is_space s \<and> spaces (takeWhile is_space s)"
    by (auto simp: spaces_def list_all_iff dest: set_takeWhileD)
qed


lemma match_here_Some:
  assumes "match_here s = Some (ds, hs, ms)"
  shows "\<exists>w1 w2 post. s = duration_text ds w1 hs w2 ms @ post
      \<and> digits ds \<and> digits hs \<and> digits ms \<and> spaces w1 \<and> spaces w2"
proof -
  from assms obtain r1 r2 r3 r4 r5 r6 r7 where
    a: "lit ''('' s = Some r1" "digits1 r1 = Some (ds, r2)" "lit ''D,'' r2 = Some r3"
       "digits1 (dropWhile is_space r3) = Some (hs, r4)" "lit ''H,'' r4 = Some r5"
       "digits1 (dropWhile is_space r5) = Some (ms, r6)" "lit ''M)'' r6 = Some r7"
    by (auto simp: match_here_def split: bind_splits)
  obtain w1 where w1: "r3 = w1 @ dropWhile is_space r3" "spaces w1"
    using drop_spaces_split [of r3] by blast
  obtain w2 where w2: "r5 = w2 @ dropWhile is_space r5" "spaces w2"
    using drop_spaces_split [of r5] by blast
  have "s = ''('' @ r1" using a(1) by (simp add: lit_Some)
  moreover have "r1 = ds @ r2" "digits ds" using digits1_Some [OF a(2)] by simp_all
  moreover have "r2 = ''D,'' @ r3" using a(3) by (simp add: lit_Some)
  moreover have "dropWhile is_space r3 = hs @ r4" "digits hs"
    using digits1_Some [OF a(4)] by simp_all
  moreover have "r4 = ''H,'' @ r5" using a(5) by (simp add: lit_Some)
  moreover have "dropWhile is_space r5 = ms @ r6" "digits ms"
    using digits1_Some [OF a(6)] by simp_all
  moreover have "r6 = ''M)'' @ r7" using a(7) by (simp add: lit_Some)
  ultimately have "s = duration_text ds w1 hs w2 ms @ r7"
    using w1(1) w2(1) by (simp add: duration_text_def)
  with \<open>digits ds\<close> \<open>digits hs\<close> \<open>digits ms\<close> w1(2) w2(2) show ?thesis by blast
qed

lemma re_search_Some:
  "re_search s = Some (ds, hs, ms) \<Longrightarrow>
     \<exists>pre w1 w2 post. s = pre @ duration_text ds w1 hs w2 ms @ post
       \<and> digits ds \<and> digits hs \<and> digits ms \<and> spaces w1 \<and> spaces w2"
proof (induction s)
  case Nil
  then have "match_here [] = Some (ds, hs, ms)" by simp
  from match_here_Some [OF this] show ?case by (metis append_Nil)
next
  case (Cons c cs)
  show ?case
  proof (cases "match_here (c # cs)")
    case None
    with Cons.prems have "re_search cs = Some (ds, hs, ms)" by simp
    from Cons.IH [OF this] obtain pre w1 w2 post where
      "cs = pre @ duration_text ds w1 hs w2 ms @ post"
      "digits ds \<and> digits hs \<and> digits ms \<and> spaces w1 \<and> spaces w2" by blast
    then have "c # cs = (c # pre) @ duration_text ds w1 hs w2 ms @ post
      \<and> digits ds \<and> digits hs \<and> digits ms \<and> spaces w1 \<and> spaces w2" by simp
    then show ?thesis by blast
  next
    case (Some g)
    with Cons.prems have "match_here (c # cs) = Some (ds, hs, ms)" by simp
    from match_here_Some [OF this] show ?thesis by (metis append_Nil)
  qed
qed



lemma int_of_str_nonneg: "list_all is_digit s \<Longrightarrow> 0 \<le> n \<Longrightarrow> 0 \<le> foldl (\<lambda>n c. 10 * n + digit_val c) n s"
proof (induction s arbitrary: n)
  case Nil
  then show ?case by simp
next
  case (Cons c s)
  from Cons.prems have "0 \<le> digit_val c" by (simp add: is_digit_def digit_val_def)
  with Cons.prems have "0 \<le> 10 * n + digit_val c" by simp
  moreover from Cons.prems have "list_all is_digit s" by simp
  ultimately show ?case using Cons.IH by simp
qed

lemma parse_nonneg:
  assumes "parse_time_string s = Some n"
  shows "0 \<le> n"
proof -
  from assms obtain ds hs ms where r: "re_search s = Some (ds, hs, ms)"
    and n: "n = int_of_str ds * 24 * 60 + int_of_str hs * 60 + int_of_str ms"
    by (auto simp: parse_time_string_def Let_def split: option.splits)
  from re_search_Some [OF r] have "digits ds" "digits hs" "digits ms" by auto
  then have "0 \<le> int_of_str ds" "0 \<le> int_of_str hs" "0 \<le> int_of_str ms"
    by (simp_all add: int_of_str_def digits_def int_of_str_nonneg)
  then show ?thesis by (simp add: n)
qed


section \<open>Properties of the calculation\<close>

lemma fdiv_eq_0_iff: "fdiv x y = 0 \<longleftrightarrow> x = 0 \<or> y = 0"
  by (simp add: fdiv_def)

lemma compute_returns: "\<exists>r. compute inp d i m = Inr r"
  by (simp add: compute_def Let_def fdiv_eq_0_iff)

lemma calcular_Inr:
  assumes "calcular inp = Inr r"
  obtains i m where "start_date inp \<le> end_date inp"
    "parse_time_string (idle_time inp) = Some i"
    "parse_time_string (moving_time inp) = Some m"
    "0 < combustible_total inp" "0 < precio_litro inp" "i + m \<noteq> 0"
    "compute inp (end_date inp - start_date inp + 1) i m = Inr r"
  using assms by (auto simp: calcular_def Let_def split: if_splits)

lemma calcular_compute:
  assumes "start_date inp \<le> end_date inp"
    "parse_time_string (idle_time inp) = Some i"
    "parse_time_string (moving_time inp) = Some m"
    "0 < combustible_total inp" "0 < precio_litro inp" "i + m \<noteq> 0"
  shows "calcular inp = compute inp (end_date inp - start_date inp + 1) i m"
  using assms by (simp add: calcular_def Let_def)

lemma compute_fields:
  assumes "compute inp d i m = Inr r"
  shows "idle_minutes r = i" "moving_minutes r = m" "total_minutes r = i + m"
    "idle_percentage r = fmul (int_truediv i (i + m)) 100"
    "moving_percentage r = fmul (int_truediv m (i + m)) 100"
    "combustible_ralenti r = fmul (fdiv (idle_percentage r) 100) (combustible_total inp)"
    "combustible_movimiento r = fmul (fdiv (moving_percentage r) 100) (combustible_total inp)"
    "costo_ralenti r = fmul (combustible_ralenti r) (precio_litro inp)"
    "costo_movimiento r = fmul (combustible_movimiento r) (precio_litro inp)"
    "costo_total r = fmul (combustible_total inp) (precio_litro inp)"
    "merma_total r = fmul (costo_ralenti r) (float_of_int (num_unidades inp))"
    "merma_diaria r = fdiv (merma_total r) (float_of_int d)"
    "merma_semanal r = fmul (merma_diaria r) 7"
    "merma_mensual r = fmul (merma_diaria r) 30"
    "merma_anual r = fmul (merma_diaria r) 365"
    "merma_total_unit r = costo_ralenti r"
    "merma_diaria_unit r = fdiv (merma_total_unit r) (float_of_int d)"
    "merma_semanal_unit r = fmul (merma_diaria_unit r) 7"
    "merma_mensual_unit r = fmul (merma_diaria_unit r) 30"
    "merma_anual_unit r = fmul (merma_diaria_unit r) 365"
    "ahorro_anual r = fmul (fmul (merma_anual r) (int_truediv (porcentaje_reduccion inp) 100))
                           (int_truediv (porcentaje_ralenti_real inp) 100)"
    "costo_total_barras r = fmul (costo_por_pieza inp) (float_of_int (num_unidades inp))"
    "ahorro_mensual r = fdiv (ahorro_anual r) 12"
    "neto_mensual r = fsub (ahorro_mensual r)
                           (fmul (renta_mensual inp) (float_of_int (num_unidades inp)))"
    "neto_anual r = fsub (ahorro_anual r)
                         (fmul (fmul (renta_mensual inp) 12) (float_of_int (num_unidades inp)))"
  using assms by (auto simp: compute_def Let_def split: if_splits)


lemma compute_fields_roi:
  assumes "compute inp d i m = Inr r"
  shows "meses_para_recuperar r =
           (if 0 < neto_mensual r then Finite (fdiv (costo_total_barras r) (neto_mensual r))
            else Infinite)"
    "roi_days r =
           (if 0 < neto_mensual r
            then Finite (fdiv (costo_total_barras r) (fdiv (neto_mensual r) 30))
            else Infinite)"
  using assms by (auto simp: compute_def Let_def split: if_splits)

lemma calcular_returns:
  assumes "start_date inp \<le> end_date inp"
    "parse_time_string (idle_time inp) = Some i"
    "parse_time_string (moving_time inp) = Some m"
    "0 < combustible_total inp" "0 < precio_litro inp" "i + m \<noteq> 0"
  shows "calcular inp = Inr (projr (calcular inp))"
proof -
  obtain r where "compute inp (end_date inp - start_date inp + 1) i m = Inr r"
    using compute_returns by blast
  with calcular_compute [OF assms] show ?thesis by simp
qed

lemma days_nonzero:
  "start_date inp \<le> end_date inp \<Longrightarrow>
     float_of_int (end_date inp - start_date inp + 1) \<noteq> 0"
  by (simp add: float_of_int_def)

section \<open>Accumulation of rounding errors\<close>

lemma u64_pos: "0 < u64"
  by (simp add: u64_def)

lemma relerr_0 [simp]: "relerr 0 = 0"
  by (simp add: relerr_def)

lemma relerr_Suc: "relerr (Suc k) = (1 + relerr k) * (1 + u64) - 1"
  by (simp add: relerr_def)

lemma relerr_add: "relerr (j + k) = (1 + relerr j) * (1 + relerr k) - 1"
  by (simp add: relerr_def power_add)

lemma relerr_nonneg: "0 \<le> relerr k"
proof -
  have "(1::rat) \<le> (1 + u64) ^ k"
    using u64_pos by (intro one_le_power) simp
  then show ?thesis by (simp add: relerr_def)
qed

lemma relerr_mono: "j \<le> k \<Longrightarrow> relerr j \<le> relerr k"
  using u64_pos by (simp add: relerr_def power_increasing)

lemma approx_refl [simp]: "approx 0 x x"
  by (simp add: approx_def)

lemma approx_weaken:
  assumes "approx j X x" "j \<le> k"
  shows "approx k X x"
proof -
  have "relerr j * \<bar>x\<bar> \<le> relerr k * \<bar>x\<bar>"
    using relerr_mono [OF assms(2)] by (simp add: mult_right_mono)
  with assms(1) show ?thesis unfolding approx_def by linarith
qed

lemma approx_abs: "approx k X x \<Longrightarrow> \<bar>X\<bar> \<le> (1 + relerr k) * \<bar>x\<bar>"
  unfolding approx_def by (simp add: algebra_simps)

lemma approx_rnd:
  assumes "approx k X x"
  shows "approx (Suc k) (rnd64 X) x"
proof -
  have 1: "\<bar>rnd64 X - X\<bar> \<le> \<bar>X\<bar> * u64"
    using rnd64_err [of X] by (simp add: u64_def)
  have "\<bar>X\<bar> * u64 \<le> (1 + relerr k) * \<bar>x\<bar> * u64"
    using approx_abs [OF assms] u64_pos by (simp add: mult_right_mono)
  with 1 have 2: "\<bar>rnd64 X - X\<bar> \<le> (1 + relerr k) * \<bar>x\<bar> * u64" by linarith
  have "\<bar>rnd64 X - x\<bar> \<le> \<bar>rnd64 X - X\<bar> + \<bar>X - x\<bar>" by linarith
  also have "\<dots> \<le> (1 + relerr k) * \<bar>x\<bar> * u64 + relerr k * \<bar>x\<bar>"
    using 2 assms unfolding approx_def by linarith
  also have "\<dots> = relerr (Suc k) * \<bar>x\<bar>"
    by (simp add: relerr_Suc algebra_simps)
  finally show ?thesis by (simp add: approx_def)
qed

lemma approx_mult:
  assumes "approx j X x" "approx k Y y"
  shows "approx (j + k) (X * Y) (x * y)"
proof -
  have "X * Y - x * y = (X - x) * Y + x * (Y - y)" by (simp add: algebra_simps)
  then have "\<bar>X * Y - x * y\<bar> \<le> \<bar>X - x\<bar> * \<bar>Y\<bar> + \<bar>x\<bar> * \<bar>Y - y\<bar>"
    by (metis abs_mult abs_triangle_ineq)
  also have "\<bar>X - x\<bar> * \<bar>Y\<bar> \<le> (relerr j * \<bar>x\<bar>) * ((1 + relerr k) * \<bar>y\<bar>)"
    using assms(1) approx_abs [OF assms(2)] unfolding approx_def
    by (intro mult_mono) (simp_all add: relerr_nonneg)
  also have "\<bar>x\<bar> * \<bar>Y - y\<bar> \<le> \<bar>x\<bar> * (relerr k * \<bar>y\<bar>)"
    using assms(2) unfolding approx_def by (intro mult_left_mono) simp_all
  finally have "\<bar>X * Y - x * y\<bar>
      \<le> (relerr j * \<bar>x\<bar>) * ((1 + relerr k) * \<bar>y\<bar>) + \<bar>x\<bar> * (relerr k * \<bar>y\<bar>)"
    by simp
  also have "\<dots> = relerr (j + k) * \<bar>x * y\<bar>"
    by (simp add: relerr_add abs_mult algebra_simps)
  finally show ?thesis by (simp add: approx_def)
qed


lemma approx_fmul:
  assumes "approx j X x" "approx k Y y" "Suc (j + k) \<le> n"
  shows "approx n (fmul X Y) (x * y)"
proof -
  have "approx (Suc (j + k)) (fmul X Y) (x * y)"
    unfolding fmul_def using assms(1,2) by (intro approx_rnd approx_mult)
  then show ?thesis using assms(3) by (rule approx_weaken)
qed


lemma approx_int_truediv: "approx 1 (int_truediv a b) (of_int a / of_int b)"
  unfolding int_truediv_def using approx_rnd [OF approx_refl] by simp


lemma approx_sum:
  assumes "approx k X x" "approx k Y y" "0 \<le> x" "0 \<le> y"
  shows "\<bar>X + Y - (x + y)\<bar> \<le> relerr k * (x + y)"
proof -
  have "\<bar>X + Y - (x + y)\<bar> \<le> \<bar>X - x\<bar> + \<bar>Y - y\<bar>" by linarith
  also have "\<dots> \<le> relerr k * \<bar>x\<bar> + relerr k * \<bar>y\<bar>"
    using assms(1,2) unfolding approx_def by linarith
  also have "\<dots> = relerr k * (x + y)"
    using assms(3,4) by (simp add: algebra_simps)
  finally show ?thesis .
qed


lemma relerr_2_100: "relerr 2 * 100 \<le> 1 / 2 ^ 45"
  by (simp add: relerr_def u64_def power2_eq_square)


section \<open>Rounding in the calculation\<close>

lemma calcular_nonneg:
  assumes "calcular inp = Inr r"
  obtains i m where "0 \<le> i" "0 \<le> m" "0 < i + m"
    "0 < combustible_total inp" "0 < precio_litro inp"
    "compute inp (end_date inp - start_date inp + 1) i m = Inr r"
proof -
  from assms obtain i m where a: "parse_time_string (idle_time inp) = Some i"
    "parse_time_string (moving_time inp) = Some m"
    "0 < combustible_total inp" "0 < precio_litro inp" "i + m \<noteq> 0"
    "compute inp (end_date inp - start_date inp + 1) i m = Inr r"
    by (rule calcular_Inr)
  have "0 \<le> i" "0 \<le> m" using a(1,2) by (auto dest: parse_nonneg)
  with a(5) have "0 \<le> i" "0 \<le> m" "0 < i + m" by simp_all
  then show ?thesis using a(3,4,6) by (rule that)
qed

lemma approx_idle_percentage:
  "approx 2 (fmul (int_truediv a b) 100) (of_int a / of_int b * 100)"
  by (rule approx_fmul [OF approx_int_truediv approx_refl]) simp

lemma split_total:
  assumes "0 < i + m"
  shows "of_int i / of_int (i + m) * c + of_int m / of_int (i + m) * c = (c::rat)"
proof -
  define T :: rat where "T = of_int (i + m)"
  have T: "0 < T" using assms by (simp add: T_def)
  have "of_int i / T * c + of_int m / T * c = (of_int i + of_int m) / T * c"
    by (simp add: add_divide_distrib distrib_right)
  also have "of_int i + of_int m = T" by (simp add: T_def)
  also have "T / T * c = c" using T by simp
  finally show ?thesis by (simp only: T_def)
qed







section \<open>Signs and monotonicity in the calculation\<close>

lemma fmul_nonneg: "0 \<le> x \<Longrightarrow> 0 \<le> y \<Longrightarrow> 0 \<le> fmul x y"
  by (simp add: fmul_def rnd64_nonneg)

lemma fdiv_nonneg: "0 \<le> x \<Longrightarrow> 0 \<le> y \<Longrightarrow> 0 \<le> fdiv x y"
  by (simp add: fdiv_def rnd64_nonneg)

lemma int_truediv_nonneg: "0 \<le> a \<Longrightarrow> 0 \<le> b \<Longrightarrow> 0 \<le> int_truediv a b"
  by (simp add: int_truediv_def rnd64_nonneg)

lemma float_of_int_nonneg: "0 \<le> n \<Longrightarrow> 0 \<le> float_of_int n"
  by (simp add: float_of_int_def rnd64_nonneg)

lemma fmul_mono_right: "0 \<le> x \<Longrightarrow> a \<le> b \<Longrightarrow> fmul x a \<le> fmul x b"
  unfolding fmul_def by (intro rnd64_mono mult_left_mono)

lemma fmul_mono_left: "0 \<le> y \<Longrightarrow> a \<le> b \<Longrightarrow> fmul a y \<le> fmul b y"
  unfolding fmul_def by (intro rnd64_mono mult_right_mono)

lemma int_truediv_mono: "0 \<le> c \<Longrightarrow> a \<le> b \<Longrightarrow> int_truediv a c \<le> int_truediv b c"
  unfolding int_truediv_def by (intro rnd64_mono divide_right_mono) simp_all

lemma merma_anual_nonneg:
  assumes "compute inp d i m = Inr r" "0 \<le> i" "0 \<le> m"
    "0 \<le> combustible_total inp" "0 \<le> precio_litro inp" "0 \<le> num_unidades inp" "0 \<le> d"
  shows "0 \<le> merma_anual r"
proof -
  note f = compute_fields [OF assms(1)]
  have "0 \<le> idle_percentage r"
    unfolding f using assms(2,3) by (intro fmul_nonneg int_truediv_nonneg) simp_all
  then have "0 \<le> combustible_ralenti r"
    unfolding f(6) using assms(4) by (intro fmul_nonneg fdiv_nonneg) simp_all
  then have "0 \<le> costo_ralenti r"
    unfolding f(8) using assms(5) by (intro fmul_nonneg)
  then have "0 \<le> merma_total r"
    unfolding f(11) using assms(6) by (intro fmul_nonneg float_of_int_nonneg)
  then have "0 \<le> merma_diaria r"
    unfolding f(12) using assms(7) by (intro fdiv_nonneg float_of_int_nonneg)
  then show ?thesis
    unfolding f(15) by (intro fmul_nonneg) simp_all
qed

section \<open>Properties of the evolution\<close>

lemma evolucion_loop_rows:
  "j \<le> n \<Longrightarrow>
   evolucion_loop ci cm am (ahorro_hasta am j) [int j + 1..int n]
     = map (fila ci cm am) [Suc j..<Suc n]"
proof (induction "n - j" arbitrary: j)
  case 0
  then have "j = n" by simp
  then show ?case by simp
next
  case (Suc d)
  then have lt: "j < n" and le: "Suc j \<le> n" and d: "d = n - Suc j" by simp_all
  have l1: "[int j + 1..int n] = (int j + 1) # [int (Suc j) + 1..int n]"
    using lt by (subst upto_rec1) simp_all
  have l2: "[Suc j..<Suc n] = Suc j # [Suc (Suc j)..<Suc n]"
    using lt by (simp add: upt_conv_Cons)
  have i: "int j + 1 = int (Suc j)" by simp
  have "evolucion_loop ci cm am (ahorro_hasta am j) ((int j + 1) # [int (Suc j) + 1..int n])
      = fila ci cm am (Suc j)
        # evolucion_loop ci cm am (ahorro_hasta am (Suc j)) [int (Suc j) + 1..int n]"
    unfolding i by (simp add: Let_def fila_def ganancia_en_def del: of_nat_Suc)
  also have "evolucion_loop ci cm am (ahorro_hasta am (Suc j)) [int (Suc j) + 1..int n]
      = map (fila ci cm am) [Suc (Suc j)..<Suc n]"
    using d le by (rule Suc.hyps(1))
  finally show ?case by (simp only: l1 l2 list.map)
qed

lemma data_evolucion_rows:
  "data_evolucion ci cm am = map (fila ci cm am) [1..<61]"
  using evolucion_loop_rows [of 0 60 ci cm am]
  by (simp add: data_evolucion_def meses_def)

lemma fold_min_least:
  "\<forall>x\<in>set xs. a \<le> x \<Longrightarrow> fold min xs a = (a::int)"
  by (induction xs) (simp_all add: min_absorb2)

lemma roi_mes_rows:
  assumes "sorted ks"
  shows "roi_mes (map (fila ci cm am) ks)
    = map_option int (List.find (\<lambda>k. 0 \<le> round2 (ganancia_en ci cm am k)) ks)"
  using assms
proof (induction ks)
  case Nil
  then show ?case by (simp add: roi_mes_def)
next
  case (Cons k ks)
  let ?P = "\<lambda>k. 0 \<le> round2 (ganancia_en ci cm am k)"
  have ih: "roi_mes (map (fila ci cm am) ks) = map_option int (List.find ?P ks)"
    using Cons by simp
  have g: "\<And>j. ganancia_acumulada (fila ci cm am j) = round2 (ganancia_en ci cm am j)"
    by (simp add: fila_def)
  have m: "\<And>j. mes (fila ci cm am j) = int j"
    by (simp add: fila_def)
  show ?case
  proof (cases "?P k")
    case True
    have "\<forall>x\<in>set (map mes (filter (\<lambda>r. 0 \<le> ganancia_acumulada r) (map (fila ci cm am) ks))).
        int k \<le> x"
      using Cons.prems by (auto simp: m)
    then have "fold min (map mes (filter (\<lambda>r. 0 \<le> ganancia_acumulada r)
        (map (fila ci cm am) ks))) (int k) = int k"
      by (rule fold_min_least)
    with True show ?thesis by (simp add: roi_mes_def g m)
  next
    case False
    then have "roi_mes (map (fila ci cm am) (k # ks)) = roi_mes (map (fila ci cm am) ks)"
      by (simp add: roi_mes_def g)
    with False ih show ?thesis by simp
  qed
qed

lemma roi_mes_find:
  "roi_mes (data_evolucion ci cm am)
     = map_option int (List.find (\<lambda>k. 0 \<le> round2 (ganancia_en ci cm am k)) [1..<61])"
  unfolding data_evolucion_rows by (rule roi_mes_rows) simp

lemma roi_mes_Some_iff:
  "roi_mes (data_evolucion ci cm am) = Some M \<longleftrightarrow>
     (\<exists>k. M = int k \<and> 1 \<le> k \<and> k \<le> 60 \<and> 0 \<le> round2 (ganancia_en ci cm am k)
        \<and> (\<forall>j. 1 \<le> j \<and> j < k \<longrightarrow> round2 (ganancia_en ci cm am j) < 0))"
  (is "?L \<longleftrightarrow> ?R")
proof
  let ?P = "\<lambda>k. 0 \<le> round2 (ganancia_en ci cm am k)"
  assume ?L
  then obtain k where f: "List.find ?P [1..<61] = Some k" and M: "M = int k"
    by (auto simp: roi_mes_find)
  from f obtain i where i: "i < length [1..<61]" "?P ([1..<61] ! i)" "k = [1..<61] ! i"
    "\<forall>j<i. \<not> ?P ([1..<61] ! j)"
    unfolding find_Some_iff by blast
  from i(1,3) have k: "k = Suc i" "i < 60" by simp_all
  have "\<forall>j. 1 \<le> j \<and> j < k \<longrightarrow> round2 (ganancia_en ci cm am j) < 0"
  proof (intro allI impI)
    fix j assume j: "1 \<le> j \<and> j < k"
    then have "j - 1 < i" using k by arith
    with i(4) have "\<not> ?P ([1..<61] ! (j - 1))" by blast
    moreover have "[1..<61] ! (j - 1) = j" using j k by simp
    ultimately show "round2 (ganancia_en ci cm am j) < 0" by simp
  qed
  moreover have "?P k" using i(2,3) by simp
  moreover have "1 \<le> k" "k \<le> 60" using k by simp_all
  ultimately show ?R using M by blast
next
  let ?P = "\<lambda>k. 0 \<le> round2 (ganancia_en ci cm am k)"
  assume ?R
  then obtain k where k: "M = int k" "1 \<le> k" "k \<le> 60" "?P k"
    "\<forall>j. 1 \<le> j \<and> j < k \<longrightarrow> round2 (ganancia_en ci cm am j) < 0" by blast
  have "List.find ?P [1..<61] = Some k"
    unfolding find_Some_iff
  proof (intro exI [of _ "k - 1"] conjI allI impI)
    show "k - 1 < length [1..<61]" using k(2,3) by simp
    show "?P ([1..<61] ! (k - 1))" using k(2,3,4) by simp
    show "k = [1..<61] ! (k - 1)" using k(2,3) by simp
    fix j assume "j < k - 1"
    then have "1 \<le> Suc j \<and> Suc j < k" "[1..<61] ! j = Suc j" using k(3) by simp_all
    with k(5) show "\<not> ?P ([1..<61] ! j)" by (metis not_le)
  qed
  then show ?L by (simp add: roi_mes_find k(1))
qed

lemma roi_mes_None_iff:
  "roi_mes (data_evolucion ci cm am) = None \<longleftrightarrow>
     (\<forall>k. 1 \<le> k \<and> k \<le> 60 \<longrightarrow> round2 (ganancia_en ci cm am k) < 0)"
proof -
  have "roi_mes (data_evolucion ci cm am) = None \<longleftrightarrow>
      \<not> (\<exists>k. k \<in> set [1..<61] \<and> 0 \<le> round2 (ganancia_en ci cm am k))"
    unfolding roi_mes_find by (simp only: option.map_disc_iff find_None_iff)
  also have "\<dots> \<longleftrightarrow> (\<forall>k. 1 \<le> k \<and> k \<le> 60 \<longrightarrow> round2 (ganancia_en ci cm am k) < 0)"
  proof -
    have s: "\<And>k. k \<in> set [1..<61] \<longleftrightarrow> 1 \<le> k \<and> k \<le> 60" by auto
    show ?thesis by (simp only: s) (metis not_le)
  qed
  finally show ?thesis .
qed

lemma rnd64_of_int:
  assumes "\<bar>n\<bar> < 2 ^ 53"
  shows "rnd64 (of_int n) = of_int n"
  using rnd64_exact [of "of_int n" n 0] assms by simp

lemma round2_of_int:
  assumes "\<bar>n\<bar> < 2 ^ 53"
  shows "round2 (of_int n) = of_int n"
proof -
  have "of_int n * (100::rat) = of_int (n * 100)" by simp
  then have "rne (of_int n * 100) = n * 100" by (simp only: rne_of_int)
  then show ?thesis using assms by (simp add: round2_def rnd64_of_int)
qed

lemma round2_half_cent:
  assumes "- (1 / 200) \<le> x" "x < 0"
  shows "round2 x = 0"
proof -
  have f: "\<lfloor>x * 100\<rfloor> = - 1"
    using assms by (intro floor_unique) simp_all
  have "rne (x * 100) = 0"
    using assms by (simp add: rne_def Let_def f)
  then show ?thesis by (simp add: round2_def)
qed

lemma ahorro_hasta_int:
  assumes "\<bar>c\<bar> \<le> 2 ^ 40" "k \<le> 60"
  shows "ahorro_hasta (of_int c) k = of_int (c * int k)"
  using assms(2)
proof (induction k)
  case 0
  then show ?case by simp
next
  case (Suc k)
  then have ih: "ahorro_hasta (of_int c) k = of_int (c * int k)" and k: "int (Suc k) \<le> 60"
    by simp_all
  have "\<bar>c * int (Suc k)\<bar> = \<bar>c\<bar> * int (Suc k)" by (simp add: abs_mult)
  also have "\<dots> \<le> 2 ^ 40 * 60"
    using assms(1) k by (intro mult_mono) simp_all
  finally have b: "\<bar>c * int (Suc k)\<bar> < 2 ^ 53" by simp
  have "ahorro_hasta (of_int c) (Suc k) = rnd64 (of_int (c * int k) + of_int c)"
    by (simp add: ih ahorro_tras_def fadd_def)
  also have "of_int (c * int k) + (of_int c :: rat) = of_int (c * int (Suc k))"
    by (simp add: algebra_simps)
  also have "rnd64 (of_int (c * int (Suc k))) = of_int (c * int (Suc k))"
    using b by (rule rnd64_of_int)
  finally show ?case .
qed

lemma costo_en_int:
  assumes "\<bar>a\<bar> \<le> 2 ^ 40" "\<bar>b\<bar> \<le> 2 ^ 40" "k \<le> 60"
  shows "costo_en (of_int a) (of_int b) (int k) = of_int (a + b * int k)"
proof -
  have k: "int k \<le> 60" using assms(3) by simp
  have "\<bar>b * int k\<bar> = \<bar>b\<bar> * int k" by (simp add: abs_mult)
  also have "\<dots> \<le> 2 ^ 40 * 60"
    using assms(2) k by (intro mult_mono) simp_all
  finally have bk: "\<bar>b * int k\<bar> \<le> 2 ^ 40 * 60" .
  then have b1: "\<bar>b * int k\<bar> < 2 ^ 53" by simp
  have "\<bar>a + b * int k\<bar> \<le> \<bar>a\<bar> + \<bar>b * int k\<bar>" by (rule abs_triangle_ineq)
  with assms(1) bk have b2: "\<bar>a + b * int k\<bar> < 2 ^ 53" by simp
  have b0: "\<bar>int k\<bar> < 2 ^ 53" using k by simp
  have 1: "float_of_int (int k) = of_int (int k)"
    unfolding float_of_int_def using b0 by (rule rnd64_of_int)
  have "fmul (of_int b) (of_int (int k)) = rnd64 (of_int (b * int k))"
    by (simp add: fmul_def)
  also have "\<dots> = of_int (b * int k)" using b1 by (rule rnd64_of_int)
  finally have 2: "fmul (of_int b) (of_int (int k)) = of_int (b * int k)" .
  have "fadd (of_int a) (of_int (b * int k)) = rnd64 (of_int (a + b * int k))"
    by (simp add: fadd_def)
  also have "\<dots> = of_int (a + b * int k)" using b2 by (rule rnd64_of_int)
  finally have 3: "fadd (of_int a) (of_int (b * int k)) = of_int (a + b * int k)" .
  show ?thesis
    unfolding costo_en_def 1 2 3 ..
qed

lemma ganancia_en_int:
  assumes "\<bar>a\<bar> \<le> 2 ^ 40" "\<bar>b\<bar> \<le> 2 ^ 40" "\<bar>c\<bar> \<le> 2 ^ 40" "k \<le> 60"
  shows "ganancia_en (of_int a) (of_int b) (of_int c) k = of_int (c * int k - (a + b * int k))"
    and "round2 (ganancia_en (of_int a) (of_int b) (of_int c) k)
       = of_int (c * int k - (a + b * int k))"
proof -
  have k: "int k \<le> 60" using assms(4) by simp
  have "\<bar>b * int k\<bar> = \<bar>b\<bar> * int k" by (simp add: abs_mult)
  also have "\<dots> \<le> 2 ^ 40 * 60"
    using assms(2) k by (intro mult_mono) simp_all
  finally have bk: "\<bar>b * int k\<bar> \<le> 2 ^ 40 * 60" .
  have "\<bar>c * int k\<bar> = \<bar>c\<bar> * int k" by (simp add: abs_mult)
  also have "\<dots> \<le> 2 ^ 40 * 60"
    using assms(3) k by (intro mult_mono) simp_all
  finally have ck: "\<bar>c * int k\<bar> \<le> 2 ^ 40 * 60" .
  have "\<bar>c * int k - (a + b * int k)\<bar> \<le> \<bar>c * int k\<bar> + \<bar>a\<bar> + \<bar>b * int k\<bar>" by linarith
  with assms(1) bk ck have b: "\<bar>c * int k - (a + b * int k)\<bar> < 2 ^ 53" by simp
  have "ganancia_en (of_int a) (of_int b) (of_int c) k
      = rnd64 (of_int (c * int k) - of_int (a + b * int k))"
    unfolding ganancia_en_def fsub_def
    by (simp only: ahorro_hasta_int [OF assms(3,4)] costo_en_int [OF assms(1,2,4)])
  also have "of_int (c * int k) - (of_int (a + b * int k) :: rat)
      = of_int (c * int k - (a + b * int k))" by simp
  also have "rnd64 (of_int (c * int k - (a + b * int k))) = of_int (c * int k - (a + b * int k))"
    using b by (rule rnd64_of_int)
  finally show g: "ganancia_en (of_int a) (of_int b) (of_int c) k
      = of_int (c * int k - (a + b * int k))" .
  show "round2 (ganancia_en (of_int a) (of_int b) (of_int c) k)
       = of_int (c * int k - (a + b * int k))"
    unfolding g using b by (rule round2_of_int)
qed

lemma data_evolucion_nth:
  assumes "1 \<le> k" "k \<le> 60"
  shows "data_evolucion ci cm am ! (k - 1) = fila ci cm am k"
  using assms by (simp add: data_evolucion_rows)

lemma ganancia_acumulada_nth:
  assumes "1 \<le> k" "k \<le> 60"
  shows "ganancia_acumulada (data_evolucion ci cm am ! (k - 1))
    = round2 (ganancia_en ci cm am k)"
  unfolding data_evolucion_nth [OF assms] by (simp add: fila_def)

section \<open>The calculation on the inputs above\<close>

lemma tercios_eval:
  shows "calcular tercios = Inr (projr (calcular tercios))"
    and "idle_percentage (projr (calcular tercios)) = 2345624805922133 / 70368744177664"
    and "moving_percentage (projr (calcular tercios)) = 2345624805922133 / 35184372088832"
proof -
  note i = tercios_def por_defecto_def
  have "parse_time_string ''(0D,0H,1M)'' = Some 1" by code_simp
  then have p1: "parse_time_string (idle_time tercios) = Some 1"
    by (simp add: i)
  have "parse_time_string ''(0D,0H,2M)'' = Some 2" by code_simp
  then have p2: "parse_time_string (moving_time tercios) = Some 2"
    by (simp add: i)
  have c: "calcular tercios = compute tercios 1 1 2"
    using calcular_compute [OF _ p1 p2] by (simp add: i)
  obtain r where r: "compute tercios 1 1 2 = Inr r"
    using compute_returns by blast
  have e: "projr (calcular tercios) = r" by (simp add: c r)
  have s1: "int_truediv 1 3 = 6004799503160661 / 18014398509481984" by code_simp
  have s2: "fmul (6004799503160661 / 18014398509481984) 100 = 2345624805922133 / 70368744177664" by code_simp
  have s3: "int_truediv 2 3 = 6004799503160661 / 9007199254740992" by code_simp
  have s4: "fmul (6004799503160661 / 9007199254740992) 100 = 2345624805922133 / 35184372088832" by code_simp
  have v_idle_percentage: "idle_percentage r = 2345624805922133 / 70368744177664"
    unfolding compute_fields(4) [OF r]  by (simp add: i s1 s2 s3 s4)
  have v_moving_percentage: "moving_percentage r = 2345624805922133 / 35184372088832"
    unfolding compute_fields(5) [OF r]  by (simp add: i s1 s2 s3 s4)
  show "calcular tercios = Inr (projr (calcular tercios))" by (simp add: c r)
  show "idle_percentage (projr (calcular tercios)) = 2345624805922133 / 70368744177664" unfolding e by (rule v_idle_percentage)
  show "moving_percentage (projr (calcular tercios)) = 2345624805922133 / 35184372088832" unfolding e by (rule v_moving_percentage)
qed



lemma escenario_eval:
  shows "calcular escenario = Inr (projr (calcular escenario))"
    and "total_minutes (projr (calcular escenario)) = 5140"
    and "idle_percentage (projr (calcular escenario)) = 7579014937111827 / 140737488355328"
    and "combustible_ralenti (projr (calcular escenario)) = 6721638872351051 / 8796093022208"
    and "costo_ralenti (projr (calcular escenario)) = 5251280369024259 / 274877906944"
proof -
  note i = escenario_def por_defecto_def
  have "parse_time_string ''(1D,22H,8M)'' = Some 2768" by code_simp
  then have p1: "parse_time_string (idle_time escenario) = Some 2768"
    by (simp add: i)
  have "parse_time_string ''(1D,15H,32M)'' = Some 2372" by code_simp
  then have p2: "parse_time_string (moving_time escenario) = Some 2372"
    by (simp add: i)
  have c: "calcular escenario = compute escenario 1 2768 2372"
    using calcular_compute [OF _ p1 p2] by (simp add: i)
  obtain r where r: "compute escenario 1 2768 2372 = Inr r"
    using compute_returns by blast
  have e: "projr (calcular escenario) = r" by (simp add: c r)
  have s1: "int_truediv 2768 5140 = 4850569559751569 / 9007199254740992" by code_simp
  have s2: "fmul (4850569559751569 / 9007199254740992) 100 = 7579014937111827 / 140737488355328" by code_simp
  have s3: "fdiv (7579014937111827 / 140737488355328) 100 = 4850569559751569 / 9007199254740992" by code_simp
  have s4: "fmul (4850569559751569 / 9007199254740992) 1419 = 6721638872351051 / 8796093022208" by code_simp
  have s5: "fmul (6721638872351051 / 8796093022208) 25 = 5251280369024259 / 274877906944" by code_simp
  have v_idle_percentage: "idle_percentage r = 7579014937111827 / 140737488355328"
    unfolding compute_fields(4) [OF r]  by (simp add: i s1 s2 s3 s4 s5)
  have v_combustible_ralenti: "combustible_ralenti r = 6721638872351051 / 8796093022208"
    unfolding compute_fields(6) [OF r] v_idle_percentage by (simp add: i s1 s2 s3 s4 s5)
  have v_costo_ralenti: "costo_ralenti r = 5251280369024259 / 274877906944"
    unfolding compute_fields(8) [OF r] v_combustible_ralenti by (simp add: i s1 s2 s3 s4 s5)
  show "calcular escenario = Inr (projr (calcular escenario))" by (simp add: c r)
  show "total_minutes (projr (calcular escenario)) = 5140" unfolding e compute_fields(3) [OF r] by simp
  show "idle_percentage (projr (calcular escenario)) = 7579014937111827 / 140737488355328" unfolding e by (rule v_idle_percentage)
  show "combustible_ralenti (projr (calcular escenario)) = 6721638872351051 / 8796093022208" unfolding e by (rule v_combustible_ralenti)
  show "costo_ralenti (projr (calcular escenario)) = 5251280369024259 / 274877906944" unfolding e by (rule v_costo_ralenti)
qed

lemma recuperable_eval:
  shows "calcular recuperable = Inr (projr (calcular recuperable))"
    and "costo_total_barras (projr (calcular recuperable)) = 30000"
    and "neto_mensual (projr (calcular recuperable)) = 8041893136153085 / 17179869184"
proof -
  note i = recuperable_def por_defecto_def
  have "parse_time_string ''(1D, 22H, 8M)'' = Some 2768" by code_simp
  then have p1: "parse_time_string (idle_time recuperable) = Some 2768"
    by (simp add: i)
  have "parse_time_string ''(1D, 15H, 32M)'' = Some 2372" by code_simp
  then have p2: "parse_time_string (moving_time recuperable) = Some 2372"
    by (simp add: i)
  have c: "calcular recuperable = compute recuperable 7 2768 2372"
    using calcular_compute [OF _ p1 p2] by (simp add: i)
  obtain r where r: "compute recuperable 7 2768 2372 = Inr r"
    using compute_returns by blast
  have e: "projr (calcular recuperable) = r" by (simp add: c r)
  have s1: "int_truediv 2768 5140 = 4850569559751569 / 9007199254740992" by code_simp
  have s2: "fmul (4850569559751569 / 9007199254740992) 100 = 7579014937111827 / 140737488355328" by code_simp
  have s3: "fdiv (7579014937111827 / 140737488355328) 100 = 4850569559751569 / 9007199254740992" by code_simp
  have s4: "fmul (4850569559751569 / 9007199254740992) 1419 = 6721638872351051 / 8796093022208" by code_simp
  have s5: "fmul (6721638872351051 / 8796093022208) 25 = 5251280369024259 / 274877906944" by code_simp
  have s6: "float_of_int 30 = 30" by code_simp
  have s7: "fmul (5251280369024259 / 274877906944) 30 = 4923075345960243 / 8589934592" by code_simp
  have s8: "float_of_int 7 = 7" by code_simp
  have s9: "fdiv (4923075345960243 / 8589934592) 7 = 5626371823954563 / 68719476736" by code_simp
  have s10: "fmul (5626371823954563 / 68719476736) 365 = 8021975452122717 / 268435456" by code_simp
  have s11: "int_truediv 20 100 = 3602879701896397 / 18014398509481984" by code_simp
  have s12: "fmul (8021975452122717 / 268435456) (3602879701896397 / 18014398509481984) = 3208790180849087 / 536870912" by code_simp
  have s13: "int_truediv 100 100 = 1" by code_simp
  have s14: "fmul (3208790180849087 / 536870912) 1 = 3208790180849087 / 536870912" by code_simp
  have s15: "fmul 1000 30 = 30000" by code_simp
  have s16: "fdiv (3208790180849087 / 536870912) 12 = 8556773815597565 / 17179869184" by code_simp
  have s17: "fmul 999 30 = 29970" by code_simp
  have s18: "fsub (8556773815597565 / 17179869184) 29970 = 8041893136153085 / 17179869184" by code_simp
  have v_idle_percentage: "idle_percentage r = 7579014937111827 / 140737488355328"
    unfolding compute_fields(4) [OF r]  by (simp add: i s1 s2 s3 s4 s5 s6 s7 s8 s9 s10 s11 s12 s13 s14 s15 s16 s17 s18)
  have v_combustible_ralenti: "combustible_ralenti r = 6721638872351051 / 8796093022208"
    unfolding compute_fields(6) [OF r] v_idle_percentage by (simp add: i s1 s2 s3 s4 s5 s6 s7 s8 s9 s10 s11 s12 s13 s14 s15 s16 s17 s18)
  have v_costo_ralenti: "costo_ralenti r = 5251280369024259 / 274877906944"
    unfolding compute_fields(8) [OF r] v_combustible_ralenti by (simp add: i s1 s2 s3 s4 s5 s6 s7 s8 s9 s10 s11 s12 s13 s14 s15 s16 s17 s18)
  have v_merma_total: "merma_total r = 4923075345960243 / 8589934592"
    unfolding compute_fields(11) [OF r] v_costo_ralenti by (simp add: i s1 s2 s3 s4 s5 s6 s7 s8 s9 s10 s11 s12 s13 s14 s15 s16 s17 s18)
  have v_merma_diaria: "merma_diaria r = 5626371823954563 / 68719476736"
    unfolding compute_fields(12) [OF r] v_merma_total by (simp add: i s1 s2 s3 s4 s5 s6 s7 s8 s9 s10 s11 s12 s13 s14 s15 s16 s17 s18)
  have v_merma_anual: "merma_anual r = 8021975452122717 / 268435456"
    unfolding compute_fields(15) [OF r] v_merma_diaria by (simp add: i s1 s2 s3 s4 s5 s6 s7 s8 s9 s10 s11 s12 s13 s14 s15 s16 s17 s18)
  have v_ahorro_anual: "ahorro_anual r = 3208790180849087 / 536870912"
    unfolding compute_fields(21) [OF r] v_merma_anual by (simp add: i s1 s2 s3 s4 s5 s6 s7 s8 s9 s10 s11 s12 s13 s14 s15 s16 s17 s18)
  have v_costo_total_barras: "costo_total_barras r = 30000"
    unfolding compute_fields(22) [OF r]  by (simp add: i s1 s2 s3 s4 s5 s6 s7 s8 s9 s10 s11 s12 s13 s14 s15 s16 s17 s18)
  have v_ahorro_mensual: "ahorro_mensual r = 8556773815597565 / 17179869184"
    unfolding compute_fields(23) [OF r] v_ahorro_anual by (simp add: i s1 s2 s3 s4 s5 s6 s7 s8 s9 s10 s11 s12 s13 s14 s15 s16 s17 s18)
  have v_neto_mensual: "neto_mensual r = 8041893136153085 / 17179869184"
    unfolding compute_fields(24) [OF r] v_ahorro_mensual by (simp add: i s1 s2 s3 s4 s5 s6 s7 s8 s9 s10 s11 s12 s13 s14 s15 s16 s17 s18)
  show "calcular recuperable = Inr (projr (calcular recuperable))" by (simp add: c r)
  show "costo_total_barras (projr (calcular recuperable)) = 30000" unfolding e by (rule v_costo_total_barras)
  show "neto_mensual (projr (calcular recuperable)) = 8041893136153085 / 17179869184" unfolding e by (rule v_neto_mensual)
qed

lemma sin_reduccion_eval:
  shows "calcular sin_reduccion = Inr (projr (calcular sin_reduccion))"
    and "neto_mensual (projr (calcular sin_reduccion)) = - 29970"
proof -
  note i = sin_reduccion_def por_defecto_def
  have "parse_time_string ''(1D, 22H, 8M)'' = Some 2768" by code_simp
  then have p1: "parse_time_string (idle_time sin_reduccion) = Some 2768"
    by (simp add: i)
  have "parse_time_string ''(1D, 15H, 32M)'' = Some 2372" by code_simp
  then have p2: "parse_time_string (moving_time sin_reduccion) = Some 2372"
    by (simp add: i)
  have c: "calcular sin_reduccion = compute sin_reduccion 1 2768 2372"
    using calcular_compute [OF _ p1 p2] by (simp add: i)
  obtain r where r: "compute sin_reduccion 1 2768 2372 = Inr r"
    using compute_returns by blast
  have e: "projr (calcular sin_reduccion) = r" by (simp add: c r)
  have s1: "int_truediv 2768 5140 = 4850569559751569 / 9007199254740992" by code_simp
  have s2: "fmul (4850569559751569 / 9007199254740992) 100 = 7579014937111827 / 140737488355328" by code_simp
  have s3: "fdiv (7579014937111827 / 140737488355328) 100 = 4850569559751569 / 9007199254740992" by code_simp
  have s4: "fmul (4850569559751569 / 9007199254740992) 1419 = 6721638872351051 / 8796093022208" by code_simp
  have s5: "fmul (6721638872351051 / 8796093022208) 25 = 5251280369024259 / 274877906944" by code_simp
  have s6: "float_of_int 30 = 30" by code_simp
  have s7: "fmul (5251280369024259 / 274877906944) 30 = 4923075345960243 / 8589934592" by code_simp
  have s8: "float_of_int 1 = 1" by code_simp
  have s9: "fdiv (4923075345960243 / 8589934592) 1 = 4923075345960243 / 8589934592" by code_simp
  have s10: "fmul (4923075345960243 / 8589934592) 365 = 3509614260303689 / 16777216" by code_simp
  have s11: "int_truediv 0 100 = 0" by code_simp
  have s12: "fmul (3509614260303689 / 16777216) 0 = 0" by code_simp
  have s13: "int_truediv 100 100 = 1" by code_simp
  have s14: "fmul 0 1 = 0" by code_simp
  have s15: "fdiv 0 12 = 0" by code_simp
  have s16: "fmul 999 30 = 29970" by code_simp
  have s17: "fsub 0 29970 = - 29970" by code_simp
  have v_idle_percentage: "idle_percentage r = 7579014937111827 / 140737488355328"
    unfolding compute_fields(4) [OF r]  by (simp add: i s1 s2 s3 s4 s5 s6 s7 s8 s9 s10 s11 s12 s13 s14 s15 s16 s17)
  have v_combustible_ralenti: "combustible_ralenti r = 6721638872351051 / 8796093022208"
    unfolding compute_fields(6) [OF r] v_idle_percentage by (simp add: i s1 s2 s3 s4 s5 s6 s7 s8 s9 s10 s11 s12 s13 s14 s15 s16 s17)
  have v_costo_ralenti: "costo_ralenti r = 5251280369024259 / 274877906944"
    unfolding compute_fields(8) [OF r] v_combustible_ralenti by (simp add: i s1 s2 s3 s4 s5 s6 s7 s8 s9 s10 s11 s12 s13 s14 s15 s16 s17)
  have v_merma_total: "merma_total r = 4923075345960243 / 8589934592"
    unfolding compute_fields(11) [OF r] v_costo_ralenti by (simp add: i s1 s2 s3 s4 s5 s6 s7 s8 s9 s10 s11 s12 s13 s14 s15 s16 s17)
  have v_merma_diaria: "merma_diaria r = 4923075345960243 / 8589934592"
    unfolding compute_fields(12) [OF r] v_merma_total by (simp add: i s1 s2 s3 s4 s5 s6 s7 s8 s9 s10 s11 s12 s13 s14 s15 s16 s17)
  have v_merma_anual: "merma_anual r = 3509614260303689 / 16777216"
    unfolding compute_fields(15) [OF r] v_merma_diaria by (simp add: i s1 s2 s3 s4 s5 s6 s7 s8 s9 s10 s11 s12 s13 s14 s15 s16 s17)
  have v_ahorro_anual: "ahorro_anual r = 0"
    unfolding compute_fields(21) [OF r] v_merma_anual by (simp add: i s1 s2 s3 s4 s5 s6 s7 s8 s9 s10 s11 s12 s13 s14 s15 s16 s17)
  have v_ahorro_mensual: "ahorro_mensual r = 0"
    unfolding compute_fields(23) [OF r] v_ahorro_anual by (simp add: i s1 s2 s3 s4 s5 s6 s7 s8 s9 s10 s11 s12 s13 s14 s15 s16 s17)
  have v_neto_mensual: "neto_mensual r = - 29970"
    unfolding compute_fields(24) [OF r] v_ahorro_mensual by (simp add: i s1 s2 s3 s4 s5 s6 s7 s8 s9 s10 s11 s12 s13 s14 s15 s16 s17)
  show "calcular sin_reduccion = Inr (projr (calcular sin_reduccion))" by (simp add: c r)
  show "neto_mensual (projr (calcular sin_reduccion)) = - 29970" unfolding e by (rule v_neto_mensual)
qed

lemma medio_centavo_eval:
  shows "calcular medio_centavo = Inr (projr (calcular medio_centavo))"
    and "costo_total_barras (projr (calcular medio_centavo)) = 93441 / 256"
    and "ahorro_mensual (projr (calcular medio_centavo)) = 365"
    and "neto_mensual (projr (calcular medio_centavo)) = 365"
proof -
  note i = medio_centavo_def por_defecto_def
  have "parse_time_string ''(0D,0H,1M)'' = Some 1" by code_simp
  then have p1: "parse_time_string (idle_time medio_centavo) = Some 1"
    by (simp add: i)
  have "parse_time_string ''(0D,0H,0M)'' = Some 0" by code_simp
  then have p2: "parse_time_string (moving_time medio_centavo) = Some 0"
    by (simp add: i)
  have c: "calcular medio_centavo = compute medio_centavo 1 1 0"
    using calcular_compute [OF _ p1 p2] by (simp add: i)
  obtain r where r: "compute medio_centavo 1 1 0 = Inr r"
    using compute_returns by blast
  have e: "projr (calcular medio_centavo) = r" by (simp add: c r)
  have s1: "int_truediv 1 1 = 1" by code_simp
  have s2: "fmul 1 100 = 100" by code_simp
  have s3: "fdiv 100 100 = 1" by code_simp
  have s4: "fmul 1 12 = 12" by code_simp
  have s5: "fmul 12 1 = 12" by code_simp
  have s6: "float_of_int 1 = 1" by code_simp
  have s7: "fdiv 12 1 = 12" by code_simp
  have s8: "fmul 12 365 = 4380" by code_simp
  have s9: "int_truediv 100 100 = 1" by code_simp
  have s10: "fmul 4380 1 = 4380" by code_simp
  have s11: "fmul (93441 / 256) 1 = 93441 / 256" by code_simp
  have s12: "fdiv 4380 12 = 365" by code_simp
  have s13: "fmul 0 1 = 0" by code_simp
  have s14: "fsub 365 0 = 365" by code_simp
  have v_idle_percentage: "idle_percentage r = 100"
    unfolding compute_fields(4) [OF r]  by (simp add: i s1 s2 s3 s4 s5 s6 s7 s8 s9 s10 s11 s12 s13 s14)
  have v_combustible_ralenti: "combustible_ralenti r = 12"
    unfolding compute_fields(6) [OF r] v_idle_percentage by (simp add: i s1 s2 s3 s4 s5 s6 s7 s8 s9 s10 s11 s12 s13 s14)
  have v_costo_ralenti: "costo_ralenti r = 12"
    unfolding compute_fields(8) [OF r] v_combustible_ralenti by (simp add: i s1 s2 s3 s4 s5 s6 s7 s8 s9 s10 s11 s12 s13 s14)
  have v_merma_total: "merma_total r = 12"
    unfolding compute_fields(11) [OF r] v_costo_ralenti by (simp add: i s1 s2 s3 s4 s5 s6 s7 s8 s9 s10 s11 s12 s13 s14)
  have v_merma_diaria: "merma_diaria r = 12"
    unfolding compute_fields(12) [OF r] v_merma_total by (simp add: i s1 s2 s3 s4 s5 s6 s7 s8 s9 s10 s11 s12 s13 s14)
  have v_merma_anual: "merma_anual r = 4380"
    unfolding compute_fields(15) [OF r] v_merma_diaria by (simp add: i s1 s2 s3 s4 s5 s6 s7 s8 s9 s10 s11 s12 s13 s14)
  have v_ahorro_anual: "ahorro_anual r = 4380"
    unfolding compute_fields(21) [OF r] v_merma_anual by (simp add: i s1 s2 s3 s4 s5 s6 s7 s8 s9 s10 s11 s12 s13 s14)
  have v_costo_total_barras: "costo_total_barras r = 93441 / 256"
    unfolding compute_fields(22) [OF r]  by (simp add: i s1 s2 s3 s4 s5 s6 s7 s8 s9 s10 s11 s12 s13 s14)
  have v_ahorro_mensual: "ahorro_mensual r = 365"
    unfolding compute_fields(23) [OF r] v_ahorro_anual by (simp add: i s1 s2 s3 s4 s5 s6 s7 s8 s9 s10 s11 s12 s13 s14)
  have v_neto_mensual: "neto_mensual r = 365"
    unfolding compute_fields(24) [OF r] v_ahorro_mensual by (simp add: i s1 s2 s3 s4 s5 s6 s7 s8 s9 s10 s11 s12 s13 s14)
  show "calcular medio_centavo = Inr (projr (calcular medio_centavo))" by (simp add: c r)
  show "costo_total_barras (projr (calcular medio_centavo)) = 93441 / 256" unfolding e by (rule v_costo_total_barras)
  show "ahorro_mensual (projr (calcular medio_centavo)) = 365" unfolding e by (rule v_ahorro_mensual)
  show "neto_mensual (projr (calcular medio_centavo)) = 365" unfolding e by (rule v_neto_mensual)
qed

section \<open>The order of the checks\<close>




section \<open>The return of the investment\<close>

text \<open>
  C5: in every result of the calculation, when the monthly net benefit is positive the
  months to recover are the total purchase cost divided by it, and the days are the total
  purchase cost divided by the thirtieth of it; when it is zero or negative both are
  \<open>float('inf')\<close>, never a finite number.
\<close>

theorem payback:
  assumes "calcular inp = Inr r"
  shows "(0 < neto_mensual r \<longrightarrow>
            meses_para_recuperar r = Finite (fdiv (costo_total_barras r) (neto_mensual r))
          \<and> roi_days r = Finite (fdiv (costo_total_barras r) (fdiv (neto_mensual r) 30)))
       \<and> (neto_mensual r \<le> 0 \<longrightarrow> meses_para_recuperar r = Infinite \<and> roi_days r = Infinite)"
  using assms by (auto simp: calcular_def compute_def Let_def split: if_splits)

theorem payback_witness:
  "0 < neto_mensual (projr (calcular recuperable))
   \<and> meses_para_recuperar (projr (calcular recuperable))
       = Finite (577261481684007 / 9007199254740992)
   \<and> roi_days (projr (calcular recuperable))
       = Finite (4329461112630053 / 2251799813685248)
   \<and> neto_mensual (projr (calcular sin_reduccion)) \<le> 0
   \<and> meses_para_recuperar (projr (calcular sin_reduccion)) = Infinite
   \<and> roi_days (projr (calcular sin_reduccion)) = Infinite"
proof -
  have q1: "fdiv 30000 (8041893136153085 / 17179869184)
      = 577261481684007 / 9007199254740992" by code_simp
  have q2: "fdiv (8041893136153085 / 17179869184) 30
      = 8578019345229957 / 549755813888" by code_simp
  have q3: "fdiv 30000 (8578019345229957 / 549755813888)
      = 4329461112630053 / 2251799813685248" by code_simp
  from payback [OF recuperable_eval(1)] payback [OF sin_reduccion_eval(1)]
  show ?thesis
    by (simp add: recuperable_eval(2,3) sin_reduccion_eval(2) q1 q2 q3)
qed

section \<open>The parser and the pattern\<close>



section \<open>The two percentages\<close>

text \<open>
  C1, as the script computes it: the moving percentage is computed from the moving minutes
  by the same formula as the idle percentage, not as the complement of the idle
  percentage, and in every result the two percentages add up to 100 up to the rounding
  of the floats: the sum differs from 100 by at most \<open>1 / 2 ^ 45\<close>.
\<close>

theorem percentages_sum:
  assumes "calcular inp = Inr r"
  shows "moving_percentage r = fmul (int_truediv (moving_minutes r) (total_minutes r)) 100
    \<and> \<bar>idle_percentage r + moving_percentage r - 100\<bar> \<le> 1 / 2 ^ 45"
proof -
  from assms obtain i m where im: "0 \<le> i" "0 \<le> m" "0 < i + m"
    and c: "compute inp (end_date inp - start_date inp + 1) i m = Inr r"
    by (rule calcular_nonneg)
  note f = compute_fields [OF c]
  define p :: rat where "p = of_int i / of_int (i + m) * 100"
  define q :: rat where "q = of_int m / of_int (i + m) * 100"
  have t: "(0::rat) < of_int (i + m)" using im(3) by simp
  have p: "0 \<le> p" and q: "0 \<le> q" using im by (simp_all add: p_def q_def)
  have pq: "p + q = 100"
    unfolding p_def q_def using im(3) by (rule split_total)
  have "approx 2 (idle_percentage r) p" "approx 2 (moving_percentage r) q"
    unfolding f p_def q_def by (rule approx_idle_percentage)+
  then have "\<bar>idle_percentage r + moving_percentage r - (p + q)\<bar> \<le> relerr 2 * (p + q)"
    using p q by (rule approx_sum)
  then have "\<bar>idle_percentage r + moving_percentage r - 100\<bar> \<le> relerr 2 * 100"
    by (simp only: pq)
  with relerr_2_100 have "\<bar>idle_percentage r + moving_percentage r - 100\<bar> \<le> 1 / 2 ^ 45"
    by linarith
  moreover have "moving_percentage r
      = fmul (int_truediv (moving_minutes r) (total_minutes r)) 100"
    by (simp add: f)
  ultimately show ?thesis by simp
qed

theorem percentages_sum_witness:
  "moving_percentage (projr (calcular tercios))
     = fmul (int_truediv (moving_minutes (projr (calcular tercios)))
                         (total_minutes (projr (calcular tercios)))) 100
   \<and> \<bar>idle_percentage (projr (calcular tercios))
        + moving_percentage (projr (calcular tercios)) - 100\<bar> \<le> 1 / 2 ^ 45"
  using percentages_sum [OF tercios_eval(1)] .

text \<open>
  The sum is not always 100: for one idle minute and two moving minutes the percentages
  are 33.33333333333333 and 66.66666666666666, and their sum, exact or rounded as a
  float, is 99.99999999999999.
\<close>

theorem percentages_sum_counterexample:
  "calcular tercios = Inr (projr (calcular tercios))
   \<and> idle_percentage (projr (calcular tercios))
       + moving_percentage (projr (calcular tercios)) \<noteq> 100
   \<and> fadd (idle_percentage (projr (calcular tercios)))
            (moving_percentage (projr (calcular tercios))) \<noteq> 100"
proof -
  have "fadd (2345624805922133 / 70368744177664) (2345624805922133 / 35184372088832)
      = 7036874417766399 / 70368744177664"
    by code_simp
  then show ?thesis
    using tercios_eval(1) by (simp add: tercios_eval(2,3))
qed

section \<open>The split of the fuel\<close>




section \<open>Fleet and unit\<close>




section \<open>The scenario of the specification\<close>

text \<open>
  C3, as the script computes it: for the idle time \<open>(1D,22H,8M)\<close> and the moving time
  \<open>(1D,15H,32M)\<close> the parser returns 2768 and 2372 minutes, the total is 5140 minutes,
  the idle percentage is 53.85 to two decimals, and with 1419 litres at 25 the idle fuel
  is 764.16 litres and the idle cost 19104.05, each to two decimals.
\<close>

theorem scenario_values:
  "parse_time_string ''(1D,22H,8M)'' = Some 2768
   \<and> parse_time_string ''(1D,15H,32M)'' = Some 2372
   \<and> calcular escenario = Inr (projr (calcular escenario))
   \<and> total_minutes (projr (calcular escenario)) = 5140
   \<and> \<bar>idle_percentage (projr (calcular escenario)) - 5385 / 100\<bar> \<le> 5 / 1000
   \<and> \<bar>combustible_ralenti (projr (calcular escenario)) - 76416 / 100\<bar> \<le> 5 / 1000
   \<and> \<bar>costo_ralenti (projr (calcular escenario)) - 1910405 / 100\<bar> \<le> 5 / 1000"
proof -
  have "parse_time_string ''(1D,22H,8M)'' = Some 2768" by code_simp
  moreover have "parse_time_string ''(1D,15H,32M)'' = Some 2372" by code_simp
  moreover note escenario_eval(1)
  moreover have "total_minutes (projr (calcular escenario)) = 5140"
    by (rule escenario_eval)
  moreover have "\<bar>idle_percentage (projr (calcular escenario)) - 5385 / 100\<bar> \<le> 5 / 1000"
    unfolding escenario_eval(3) by simp
  moreover have "\<bar>combustible_ralenti (projr (calcular escenario)) - 76416 / 100\<bar> \<le> 5 / 1000"
    unfolding escenario_eval(4) by simp
  moreover have "\<bar>costo_ralenti (projr (calcular escenario)) - 1910405 / 100\<bar> \<le> 5 / 1000"
    unfolding escenario_eval(5) by simp
  ultimately show ?thesis by (intro conjI)
qed

text \<open>
  The figures of the claim are not the ones of the script: one day, 15 hours and 32 minutes
  are 2372 minutes and not 2252, so the total is not 5020, and the idle percentage, the
  idle fuel and the idle cost are not 55.14, 782.45 and 19561.27 to two decimals.
\<close>

theorem scenario_counterexample:
  "idle_time escenario = ''(1D,22H,8M)'' \<and> moving_time escenario = ''(1D,15H,32M)''
   \<and> combustible_total escenario = 1419 \<and> precio_litro escenario = 25
   \<and> parse_time_string ''(1D,15H,32M)'' \<noteq> Some 2252
   \<and> calcular escenario = Inr (projr (calcular escenario))
   \<and> total_minutes (projr (calcular escenario)) \<noteq> 5020
   \<and> \<not> \<bar>idle_percentage (projr (calcular escenario)) - 5514 / 100\<bar> \<le> 5 / 1000
   \<and> \<not> \<bar>combustible_ralenti (projr (calcular escenario)) - 78245 / 100\<bar> \<le> 5 / 1000
   \<and> \<not> \<bar>costo_ralenti (projr (calcular escenario)) - 1956127 / 100\<bar> \<le> 5 / 1000"
proof -
  have "idle_time escenario = ''(1D,22H,8M)''" "moving_time escenario = ''(1D,15H,32M)''"
    "combustible_total escenario = 1419" "precio_litro escenario = 25"
    by (simp_all add: escenario_def por_defecto_def)
  moreover have "parse_time_string ''(1D,15H,32M)'' = Some 2372" by code_simp
  then have "parse_time_string ''(1D,15H,32M)'' \<noteq> Some 2252" by simp
  moreover note escenario_eval(1)
  moreover have "total_minutes (projr (calcular escenario)) \<noteq> 5020"
    unfolding escenario_eval(2) by simp
  moreover have "\<not> \<bar>idle_percentage (projr (calcular escenario)) - 5514 / 100\<bar> \<le> 5 / 1000"
    unfolding escenario_eval(3) by simp
  moreover have "\<not> \<bar>combustible_ralenti (projr (calcular escenario)) - 78245 / 100\<bar> \<le> 5 / 1000"
    unfolding escenario_eval(4) by simp
  moreover have "\<not> \<bar>costo_ralenti (projr (calcular escenario)) - 1956127 / 100\<bar> \<le> 5 / 1000"
    unfolding escenario_eval(5) by simp
  ultimately show ?thesis by (intro conjI)
qed

section \<open>More reduction, no less savings\<close>

text \<open>
  C8: the annual savings are the annual loss of the fleet times the reduction percentage
  over 100 times the real idle percentage over 100, and for two inputs that differ only in
  the reduction percentage, with units and a real idle percentage that are not negative,
  the larger reduction percentage never gives the smaller annual savings.
\<close>

theorem savings_monotone:
  assumes "calcular inp = Inr r"
    and "calcular (inp \<lparr> porcentaje_reduccion := p \<rparr>) = Inr r'"
    and "porcentaje_reduccion inp \<le> p"
    and "0 \<le> num_unidades inp" and "0 \<le> porcentaje_ralenti_real inp"
  shows "ahorro_anual r
           = fmul (fmul (merma_anual r) (int_truediv (porcentaje_reduccion inp) 100))
                  (int_truediv (porcentaje_ralenti_real inp) 100)
    \<and> ahorro_anual r \<le> ahorro_anual r'"
proof -
  let ?inp' = "inp \<lparr> porcentaje_reduccion := p \<rparr>"
  let ?d = "end_date inp - start_date inp + 1"
  from assms(1) obtain i m where a: "start_date inp \<le> end_date inp"
    "parse_time_string (idle_time inp) = Some i"
    "parse_time_string (moving_time inp) = Some m"
    "0 < combustible_total inp" "0 < precio_litro inp"
    and c: "compute inp ?d i m = Inr r"
    by (rule calcular_Inr)
  from assms(2) obtain i' m' where a': "parse_time_string (idle_time ?inp') = Some i'"
    "parse_time_string (moving_time ?inp') = Some m'"
    and c0: "compute ?inp' (end_date ?inp' - start_date ?inp' + 1) i' m' = Inr r'"
    by (rule calcular_Inr)
  from a(2,3) a' have "i' = i" "m' = m" by simp_all
  with c0 have c': "compute ?inp' ?d i m = Inr r'" by simp
  note f = compute_fields [OF c]
  note f' = compute_fields [OF c']
  have im: "0 \<le> i" "0 \<le> m" using a(2,3) by (auto dest: parse_nonneg)
  have M: "0 \<le> merma_anual r"
    using c im a(4,5) assms(4) a(1) by (intro merma_anual_nonneg [of inp ?d i m]) simp_all
  have same: "merma_anual r' = merma_anual r"
    by (simp add: f(4,6,8,11,12,15) f'(4,6,8,11,12,15))
  have R: "0 \<le> int_truediv (porcentaje_ralenti_real inp) 100"
    using assms(5) by (intro int_truediv_nonneg) simp_all
  have "int_truediv (porcentaje_reduccion inp) 100 \<le> int_truediv p 100"
    using assms(3) by (intro int_truediv_mono) simp_all
  then have "fmul (merma_anual r) (int_truediv (porcentaje_reduccion inp) 100)
      \<le> fmul (merma_anual r) (int_truediv p 100)"
    using M by (intro fmul_mono_right)
  then have "fmul (fmul (merma_anual r) (int_truediv (porcentaje_reduccion inp) 100))
                  (int_truediv (porcentaje_ralenti_real inp) 100)
      \<le> fmul (fmul (merma_anual r) (int_truediv p 100))
               (int_truediv (porcentaje_ralenti_real inp) 100)"
    using R by (intro fmul_mono_left)
  moreover have "ahorro_anual r'
      = fmul (fmul (merma_anual r) (int_truediv p 100))
             (int_truediv (porcentaje_ralenti_real inp) 100)"
    by (simp add: f'(21) same)
  ultimately show ?thesis by (simp add: f(21))
qed

theorem savings_monotone_witness:
  "ahorro_anual (projr (calcular tercios))
     \<le> ahorro_anual (projr (calcular (tercios \<lparr> porcentaje_reduccion := 50 \<rparr>)))"
proof -
  have p1: "parse_time_string ''(0D,0H,1M)'' = Some 1" by code_simp
  have p2: "parse_time_string ''(0D,0H,2M)'' = Some 2" by code_simp
  have e: "calcular (tercios \<lparr> porcentaje_reduccion := 50 \<rparr>)
      = Inr (projr (calcular (tercios \<lparr> porcentaje_reduccion := 50 \<rparr>)))"
    by (rule calcular_returns [where i = 1 and m = 2])
       (simp_all add: tercios_def por_defecto_def p1 p2)
  from savings_monotone [OF tercios_eval(1) e] show ?thesis
    by (simp add: tercios_def por_defecto_def)
qed

section \<open>The month of the return\<close>

text \<open>
  C10: the month of the return is read from the gains as the table stores them, rounded
  to two decimals: it is the least month from 1 to 60 whose rounded gain is not negative.
  So a month whose gain before rounding is negative but not below minus half a cent, with
  all earlier rounded gains negative, is the month reported.
\<close>

theorem break_even_rounded:
  "(roi_mes (data_evolucion ci cm am) = Some M \<longleftrightarrow>
      (\<exists>k. M = int k \<and> 1 \<le> k \<and> k \<le> 60 \<and> 0 \<le> round2 (ganancia_en ci cm am k)
         \<and> (\<forall>j. 1 \<le> j \<and> j < k \<longrightarrow> round2 (ganancia_en ci cm am j) < 0)))
   \<and> (1 \<le> k \<and> k \<le> 60 \<and> - (1 / 200) \<le> ganancia_en ci cm am k \<and> ganancia_en ci cm am k < 0
        \<and> (\<forall>j. 1 \<le> j \<and> j < k \<longrightarrow> round2 (ganancia_en ci cm am j) < 0)
      \<longrightarrow> roi_mes (data_evolucion ci cm am) = Some (int k))"
proof (intro conjI impI)
  show "roi_mes (data_evolucion ci cm am) = Some M \<longleftrightarrow>
      (\<exists>k. M = int k \<and> 1 \<le> k \<and> k \<le> 60 \<and> 0 \<le> round2 (ganancia_en ci cm am k)
         \<and> (\<forall>j. 1 \<le> j \<and> j < k \<longrightarrow> round2 (ganancia_en ci cm am j) < 0))"
    by (rule roi_mes_Some_iff)
next
  assume a: "1 \<le> k \<and> k \<le> 60 \<and> - (1 / 200) \<le> ganancia_en ci cm am k
    \<and> ganancia_en ci cm am k < 0
    \<and> (\<forall>j. 1 \<le> j \<and> j < k \<longrightarrow> round2 (ganancia_en ci cm am j) < 0)"
  then have "round2 (ganancia_en ci cm am k) = 0"
    by (intro round2_half_cent) simp_all
  with a show "roi_mes (data_evolucion ci cm am) = Some (int k)"
    unfolding roi_mes_Some_iff by (intro exI [of _ k]) simp
qed

text \<open>
  Such an input exists: with the inputs \<open>medio_centavo\<close> the gain of month 1 is
  365 - 365.00390625, which is negative, and month 1 is reported.
\<close>

theorem break_even_rounded_witness:
  "calcular medio_centavo = Inr (projr (calcular medio_centavo))
   \<and> simular medio_centavo (projr (calcular medio_centavo))
       = data_evolucion (93441 / 256) 0 365
   \<and> ganancia_en (93441 / 256) 0 365 1 = - (1 / 256)
   \<and> roi_mes (simular medio_centavo (projr (calcular medio_centavo))) = Some 1"
proof -
  have g: "ganancia_en (93441 / 256) 0 365 1 = - (1 / 256)"
    by code_simp
  have m: "fmul 0 (float_of_int 1) = 0"
    by (simp add: fmul_def)
  have s: "simular medio_centavo (projr (calcular medio_centavo))
      = data_evolucion (93441 / 256) 0 365"
    unfolding simular_def medio_centavo_eval(2,3)
    by (simp add: medio_centavo_def por_defecto_def m)
  from g have g': "ganancia_en (93441 / 256) 0 365 (Suc 0) = - (1 / 256)" by simp
  from break_even_rounded [of "93441 / 256" 0 365 1 1, THEN conjunct2]
  have "roi_mes (data_evolucion (93441 / 256) 0 365) = Some 1"
    by (simp add: g')
  with g s medio_centavo_eval(1) show ?thesis by simp
qed

section \<open>The table of the evolution\<close>

text \<open>
  C6, as the script computes it: the table has one row for each month from 1 to 60; the
  row of month \<open>k\<close> holds, each rounded to two decimals, the running sum of the monthly
  savings, the initial cost plus the monthly cost times \<open>k\<close>, and their difference. The
  month of the return is the least month whose gain in the table is not negative, and
  there is none when every gain in the table is negative. With savings of 1000, a monthly
  cost of 200 and an initial cost of 2400 it is month 3, after gains of -1600, -800 and 0;
  with no savings, a monthly cost of 500 and an initial cost of 10000 the gain decreases
  every month and there is no month of return.
\<close>

theorem evolution_series:
  "length (data_evolucion ci cm am) = 60
   \<and> (\<forall>k. 1 \<le> k \<and> k \<le> 60 \<longrightarrow>
        data_evolucion ci cm am ! (k - 1)
          = \<lparr> mes = int k,
              ahorro_acumulado = round2 (ahorro_hasta am k),
              costo_acumulado = round2 (fadd ci (fmul cm (float_of_int (int k)))),
              ganancia_acumulada =
                round2 (fsub (ahorro_hasta am k) (fadd ci (fmul cm (float_of_int (int k))))) \<rparr>)
   \<and> (\<forall>k. ahorro_hasta am (Suc k) = fadd (ahorro_hasta am k) am)
   \<and> (\<forall>M. roi_mes (data_evolucion ci cm am) = Some M \<longleftrightarrow>
        (\<exists>k. M = int k \<and> 1 \<le> k \<and> k \<le> 60
           \<and> 0 \<le> ganancia_acumulada (data_evolucion ci cm am ! (k - 1))
           \<and> (\<forall>j. 1 \<le> j \<and> j < k \<longrightarrow>
                 ganancia_acumulada (data_evolucion ci cm am ! (j - 1)) < 0)))
   \<and> (roi_mes (data_evolucion ci cm am) = None \<longleftrightarrow>
        (\<forall>k. 1 \<le> k \<and> k \<le> 60 \<longrightarrow>
           ganancia_acumulada (data_evolucion ci cm am ! (k - 1)) < 0))
   \<and> roi_mes (data_evolucion 2400 200 1000) = Some 3
   \<and> map ganancia_acumulada (take 3 (data_evolucion 2400 200 1000)) = [- 1600, - 800, 0]
   \<and> roi_mes (data_evolucion 10000 500 0) = None
   \<and> (\<forall>k. 1 \<le> k \<and> k < 60 \<longrightarrow>
        ganancia_acumulada (data_evolucion 10000 500 0 ! k)
          < ganancia_acumulada (data_evolucion 10000 500 0 ! (k - 1)))"
proof -
  have 1: "length (data_evolucion ci cm am) = 60"
    by (simp add: data_evolucion_rows)
  have 2: "\<forall>k. 1 \<le> k \<and> k \<le> 60 \<longrightarrow>
        data_evolucion ci cm am ! (k - 1)
          = \<lparr> mes = int k,
              ahorro_acumulado = round2 (ahorro_hasta am k),
              costo_acumulado = round2 (fadd ci (fmul cm (float_of_int (int k)))),
              ganancia_acumulada =
                round2 (fsub (ahorro_hasta am k) (fadd ci (fmul cm (float_of_int (int k))))) \<rparr>"
  proof (intro allI impI)
    fix k :: nat assume "1 \<le> k \<and> k \<le> 60"
    then have "data_evolucion ci cm am ! (k - 1) = fila ci cm am k"
      by (intro data_evolucion_nth) simp_all
    then show "data_evolucion ci cm am ! (k - 1)
          = \<lparr> mes = int k,
              ahorro_acumulado = round2 (ahorro_hasta am k),
              costo_acumulado = round2 (fadd ci (fmul cm (float_of_int (int k)))),
              ganancia_acumulada =
                round2 (fsub (ahorro_hasta am k) (fadd ci (fmul cm (float_of_int (int k))))) \<rparr>"
      by (simp add: fila_def ganancia_en_def costo_en_def)
  qed
  have 3: "\<forall>k. ahorro_hasta am (Suc k) = fadd (ahorro_hasta am k) am"
    by (simp add: ahorro_tras_def)
  have g: "\<And>k. 1 \<le> k \<and> k \<le> 60 \<Longrightarrow>
      ganancia_acumulada (data_evolucion ci cm am ! (k - 1)) = round2 (ganancia_en ci cm am k)"
    by (intro ganancia_acumulada_nth) simp_all
  have g': "\<And>k. Suc 0 \<le> k \<Longrightarrow> k \<le> 60 \<Longrightarrow>
      ganancia_acumulada (data_evolucion ci cm am ! (k - Suc 0)) = round2 (ganancia_en ci cm am k)"
    using g by simp
  have 4: "\<forall>M. roi_mes (data_evolucion ci cm am) = Some M \<longleftrightarrow>
        (\<exists>k. M = int k \<and> 1 \<le> k \<and> k \<le> 60
           \<and> 0 \<le> ganancia_acumulada (data_evolucion ci cm am ! (k - 1))
           \<and> (\<forall>j. 1 \<le> j \<and> j < k \<longrightarrow>
                 ganancia_acumulada (data_evolucion ci cm am ! (j - 1)) < 0))"
  proof
    fix M
    have "(\<exists>k. M = int k \<and> 1 \<le> k \<and> k \<le> 60
           \<and> 0 \<le> ganancia_acumulada (data_evolucion ci cm am ! (k - 1))
           \<and> (\<forall>j. 1 \<le> j \<and> j < k \<longrightarrow>
                 ganancia_acumulada (data_evolucion ci cm am ! (j - 1)) < 0))
      \<longleftrightarrow> (\<exists>k. M = int k \<and> 1 \<le> k \<and> k \<le> 60 \<and> 0 \<le> round2 (ganancia_en ci cm am k)
         \<and> (\<forall>j. 1 \<le> j \<and> j < k \<longrightarrow> round2 (ganancia_en ci cm am j) < 0))"
    proof (intro ex_cong1 conj_cong refl all_cong1 imp_cong)
      fix k j :: nat
      assume "1 \<le> k" "k \<le> 60"
      then show "0 \<le> ganancia_acumulada (data_evolucion ci cm am ! (k - 1))
          \<longleftrightarrow> 0 \<le> round2 (ganancia_en ci cm am k)"
        by (simp add: g')
      assume "1 \<le> j \<and> j < k"
      with \<open>k \<le> 60\<close> have "1 \<le> j \<and> j \<le> 60" by simp
      then show "ganancia_acumulada (data_evolucion ci cm am ! (j - 1)) < 0
          \<longleftrightarrow> round2 (ganancia_en ci cm am j) < 0"
        by (simp add: g')
    qed
    then show "roi_mes (data_evolucion ci cm am) = Some M \<longleftrightarrow>
        (\<exists>k. M = int k \<and> 1 \<le> k \<and> k \<le> 60
           \<and> 0 \<le> ganancia_acumulada (data_evolucion ci cm am ! (k - 1))
           \<and> (\<forall>j. 1 \<le> j \<and> j < k \<longrightarrow>
                 ganancia_acumulada (data_evolucion ci cm am ! (j - 1)) < 0))"
      by (simp only: roi_mes_Some_iff)
  qed
  have 5: "roi_mes (data_evolucion ci cm am) = None \<longleftrightarrow>
        (\<forall>k. 1 \<le> k \<and> k \<le> 60 \<longrightarrow>
           ganancia_acumulada (data_evolucion ci cm am ! (k - 1)) < 0)"
    unfolding roi_mes_None_iff by (intro all_cong1 imp_cong refl) (simp add: g')
  have s1: "\<And>k. k \<le> 60 \<Longrightarrow> round2 (ganancia_en 2400 200 1000 k) = of_int (800 * int k - 2400)"
    using ganancia_en_int(2) [of 2400 200 1000] by (simp add: algebra_simps)
  have 6: "roi_mes (data_evolucion 2400 200 1000) = Some 3"
    unfolding roi_mes_Some_iff
  proof (intro exI [of _ 3] conjI allI impI)
    show "0 \<le> round2 (ganancia_en 2400 200 1000 3)" by (simp add: s1)
    fix j :: nat assume "1 \<le> j \<and> j < 3"
    then show "round2 (ganancia_en 2400 200 1000 j) < 0" by (simp add: s1)
  qed simp_all
  have 7: "map ganancia_acumulada (take 3 (data_evolucion 2400 200 1000)) = [- 1600, - 800, 0]"
  proof -
    have "[1..<61] = 1 # 2 # 3 # [4..<61]" by code_simp
    then have "take 3 (map (fila 2400 200 1000) [1..<61]) = map (fila 2400 200 1000) [1, 2, 3]"
      by simp
    then show ?thesis
      by (simp add: data_evolucion_rows fila_def s1)
  qed
  have s2: "\<And>k. k \<le> 60 \<Longrightarrow>
      round2 (ganancia_en 10000 500 0 k) = - of_int (10000 + 500 * int k)"
    using ganancia_en_int(2) [of 10000 500 0] by simp
  have 8: "roi_mes (data_evolucion 10000 500 0) = None"
    unfolding roi_mes_None_iff by (simp add: s2)
  have 9: "\<forall>k. 1 \<le> k \<and> k < 60 \<longrightarrow>
        ganancia_acumulada (data_evolucion 10000 500 0 ! k)
          < ganancia_acumulada (data_evolucion 10000 500 0 ! (k - 1))"
  proof (intro allI impI)
    fix k :: nat assume k: "1 \<le> k \<and> k < 60"
    have a: "ganancia_acumulada (data_evolucion 10000 500 0 ! (k - 1))
        = - of_int (10000 + 500 * int k)"
      using ganancia_acumulada_nth [of k 10000 500 0] s2 [of k] k by simp
    have b: "ganancia_acumulada (data_evolucion 10000 500 0 ! k)
        = - of_int (10000 + 500 * int (Suc k))"
      using ganancia_acumulada_nth [of "Suc k" 10000 500 0] s2 [of "Suc k"] k by simp
    show "ganancia_acumulada (data_evolucion 10000 500 0 ! k)
          < ganancia_acumulada (data_evolucion 10000 500 0 ! (k - 1))"
      unfolding a b by simp
  qed
  from 1 2 3 4 5 6 7 8 9 show ?thesis by (intro conjI)
qed

theorem evolution_series_witness:
  "data_evolucion 2400 200 1000 ! 2
     = \<lparr> mes = 3, ahorro_acumulado = 3000, costo_acumulado = 3000, ganancia_acumulada = 0 \<rparr>
   \<and> roi_mes (data_evolucion 2400 200 1000) = Some 3"
proof -
  have a: "ahorro_hasta 1000 3 = 3000"
    using ahorro_hasta_int [of 1000 3] by simp
  have c: "fadd 2400 (fmul 200 (float_of_int 3)) = 3000"
    using costo_en_int [of 2400 200 3] by (simp add: costo_en_def)
  have f: "fsub 3000 3000 = 0" by (simp add: fsub_def)
  have r: "round2 3000 = 3000" "round2 0 = 0"
    using round2_of_int [of 3000] round2_of_int [of 0] by simp_all
  from evolution_series [of 2400 200 1000]
  have "1 \<le> (3::nat) \<and> (3::nat) \<le> 60 \<longrightarrow>
      data_evolucion 2400 200 1000 ! (3 - 1)
        = \<lparr> mes = int 3,
            ahorro_acumulado = round2 (ahorro_hasta 1000 3),
            costo_acumulado = round2 (fadd 2400 (fmul 200 (float_of_int (int 3)))),
            ganancia_acumulada =
              round2 (fsub (ahorro_hasta 1000 3)
                (fadd 2400 (fmul 200 (float_of_int (int 3))))) \<rparr>"
    and "roi_mes (data_evolucion 2400 200 1000) = Some 3"
    by blast+
  then show ?thesis
    by (simp add: a c f r)
qed

text \<open>
  The month reported is not always the least month whose gain is not negative, and the
  table does not hold the gain itself: with savings of 1, no monthly cost and an initial
  cost of 1.00390625 the gain of month 1 is -0.00390625, the table holds 0, and month 1
  is reported.
\<close>

theorem evolution_series_counterexample:
  "roi_mes (data_evolucion (257 / 256) 0 1) = Some 1
   \<and> fsub (fadd 0 1) (fadd (257 / 256) (fmul 0 (float_of_int 1))) = - (1 / 256)
   \<and> ganancia_acumulada (data_evolucion (257 / 256) 0 1 ! 0) = 0"
proof -
  have g: "ganancia_en (257 / 256) 0 1 1 = - (1 / 256)"
    by code_simp
  then have r: "round2 (ganancia_en (257 / 256) 0 1 1) = 0"
    by (simp add: round2_half_cent)
  from r have r': "round2 (ganancia_en (257 / 256) 0 1 (Suc 0)) = 0" by simp
  have "roi_mes (data_evolucion (257 / 256) 0 1) = Some 1"
    unfolding roi_mes_Some_iff by (intro exI [of _ 1]) (simp add: r')
  moreover have "fsub (fadd 0 1) (fadd (257 / 256) (fmul 0 (float_of_int 1))) = - (1 / 256)"
    using g by (simp add: ganancia_en_def costo_en_def ahorro_tras_def)
  moreover have "ganancia_acumulada (data_evolucion (257 / 256) 0 1 ! 0) = 0"
    using ganancia_acumulada_nth [of 1 "257 / 256" 0 1] r by simp
  ultimately show ?thesis by (intro conjI)
qed

end
